theory Spec2Isabelle
  imports Complex_Main "HOL-Library.Monad_Syntax"
begin

section \<open>The rate limiter of \<open>src/pages/api/score.ts\<close>\<close>

text \<open>
  The handler keeps one module-level \<^verbatim>\<open>LRUCache<string, number>({max: 500, ttl: 1h})\<close>.
  The class comes from the package lru-cache, which the repository imports and does not
  hold: its \<^verbatim>\<open>get\<close> and \<^verbatim>\<open>set\<close> are modelled below from section 4.1 of the specification
  and from the documentation of the package. The cache is the list of its entries, most
  recently used first; an entry is (key, value, start), where start is the time (in
  milliseconds) of the last \<^verbatim>\<open>set\<close> of the key. The time of a call is an explicit argument:
  the reading of the cache's clock, which is positive in a running process (its resolution
  of one millisecond is not modelled).
\<close>

type_synonym entry = "string \<times> nat \<times> nat"
type_synonym cache = "entry list"

definition max_entries :: nat where
  "max_entries = 500"

definition ttl :: nat where
  "ttl = 1000 * 60 * 60"

definition REQUESTS_PER_HOUR :: nat where
  "REQUESTS_PER_HOUR = 5"

definition remove_key :: "string \<Rightarrow> cache \<Rightarrow> cache" where
  "remove_key k c = filter (\<lambda>e. fst e \<noteq> k) c"

text \<open>
  Modelled from the spec: \<^verbatim>\<open>get(k)\<close> of the package lru-cache. An absent key gives
  undefined; an entry older than the ttl has lapsed: it is deleted and gives undefined;
  otherwise the entry becomes the most recently used one and its value is returned (its
  start time is not refreshed: updateAgeOnGet is off).
\<close>

definition lru_get :: "nat \<Rightarrow> string \<Rightarrow> cache \<Rightarrow> nat option \<times> cache" where
  "lru_get now k c =
     (case find (\<lambda>e. fst e = k) c of
        None \<Rightarrow> (None, c)
      | Some (k', v, s) \<Rightarrow>
          if now - s > ttl then (None, remove_key k c)
          else (Some v, (k, v, s) # remove_key k c))"

text \<open>
  Modelled from the spec: \<^verbatim>\<open>set(k, v)\<close> of the package lru-cache. A known key is
  overwritten and becomes the most recently used one; a new key is added in front, after
  the least recently used entry has been evicted when the cache holds max entries. Either
  way the time-to-live of the entry starts again at the time of the call.
\<close>

definition lru_set :: "nat \<Rightarrow> string \<Rightarrow> nat \<Rightarrow> cache \<Rightarrow> cache" where
  "lru_set now k v c =
     (case find (\<lambda>e. fst e = k) c of
        Some _ \<Rightarrow> (k, v, now) # remove_key k c
      | None \<Rightarrow> (k, v, now) # (if length c = max_entries then butlast c else c))"

record rate_result =
  allowed :: bool
  remaining :: int

definition getRateLimit :: "nat \<Rightarrow> string \<Rightarrow> cache \<Rightarrow> rate_result \<times> cache" where
  "getRateLimit now ip c =
     (let (got, c1) = lru_get now ip c;
          current = (case got of None \<Rightarrow> 0 | Some v \<Rightarrow> v)
      in if current \<ge> REQUESTS_PER_HOUR
         then (\<lparr>allowed = False, remaining = 0\<rparr>, c1)
         else (\<lparr>allowed = True, remaining = int REQUESTS_PER_HOUR - int (current + 1)\<rparr>,
               lru_set now ip (current + 1) c1))"

text \<open>The count the cache stores for a key, whatever its age.\<close>

definition stored_count :: "cache \<Rightarrow> string \<Rightarrow> nat option" where
  "stored_count c k = map_option (\<lambda>e. fst (snd e)) (find (\<lambda>e. fst e = k) c)"

text \<open>A sequence of calls of \<open>getRateLimit\<close>, each with its time and identity.\<close>

fun check_all :: "(nat \<times> string) list \<Rightarrow> cache \<Rightarrow> rate_result list \<times> cache" where
  "check_all [] c = ([], c)"
| "check_all ((t, ip) # rest) c =
     (let (r, c1) = getRateLimit t ip c;
          (rs, c2) = check_all rest c1
      in (r # rs, c2))"

text \<open>
  The results that the calls of identity \<open>k\<close> get, in order, when \<open>calls\<close> are made one
  after the other.
\<close>

definition results_for :: "string \<Rightarrow> (nat \<times> string) list \<Rightarrow> cache \<Rightarrow> rate_result list" where
  "results_for k calls c =
     map snd (filter (\<lambda>(call, r). snd call = k) (zip calls (fst (check_all calls c))))"

text \<open>
  The result that the specification gives the call number \<open>i\<close> (from 0) of an identity
  within one window: allowed with the remaining allowance while \<open>i\<close> is below the
  threshold, denied with nothing remaining afterwards.
\<close>

definition expected_result :: "nat \<Rightarrow> rate_result" where
  "expected_result i =
     (if i < REQUESTS_PER_HOUR
      then \<lparr>allowed = True, remaining = int REQUESTS_PER_HOUR - 1 - int i\<rparr>
      else \<lparr>allowed = False, remaining = 0\<rparr>)"

text \<open>The number of entries that are more recently used than the entry of \<open>k\<close>.\<close>

definition pos :: "string \<Rightarrow> cache \<Rightarrow> nat" where
  "pos k c = length (takeWhile (\<lambda>e. fst e \<noteq> k) c)"

text \<open>The keys of those entries, the most recently used first.\<close>

definition newer :: "string \<Rightarrow> cache \<Rightarrow> string list" where
  "newer k c = map fst (takeWhile (\<lambda>e. fst e \<noteq> k) c)"

section \<open>JavaScript numbers and values\<close>

text \<open>
  A JavaScript number is NaN, an infinity or a finite value. Finite values are modelled as
  reals: the rounding error of the floating-point operations is not part of the model.
  \<^verbatim>\<open>Math.log\<close> is the natural logarithm \<open>ln\<close>, used on positive arguments only.
\<close>

datatype jsnum = NaN | NegInf | Fin real | PosInf

text \<open>The comparison \<^verbatim>\<open>a <= b\<close>: false as soon as one side is NaN.\<close>

fun js_le :: "jsnum \<Rightarrow> jsnum \<Rightarrow> bool" where
  "js_le NaN b = False"
| "js_le a NaN = False"
| "js_le NegInf b = True"
| "js_le a PosInf = True"
| "js_le (Fin x) (Fin y) = (x \<le> y)"
| "js_le a b = False"

definition js_ge :: "jsnum \<Rightarrow> jsnum \<Rightarrow> bool" where
  "js_ge a b = js_le b a"

definition Math_max :: "jsnum \<Rightarrow> jsnum \<Rightarrow> jsnum" where
  "Math_max a b = (if a = NaN \<or> b = NaN then NaN else if js_le a b then b else a)"

definition Math_min :: "jsnum \<Rightarrow> jsnum \<Rightarrow> jsnum" where
  "Math_min a b = (if a = NaN \<or> b = NaN then NaN else if js_le a b then a else b)"

text \<open>\<^verbatim>\<open>Math.round\<close> rounds to the nearest integer, a half towards plus infinity.\<close>

fun Math_round :: "jsnum \<Rightarrow> jsnum" where
  "Math_round (Fin x) = Fin (real_of_int \<lfloor>x + 1 / 2\<rfloor>)"
| "Math_round n = n"

fun js_neg :: "jsnum \<Rightarrow> jsnum" where
  "js_neg (Fin x) = Fin (- x)"
| "js_neg NegInf = PosInf"
| "js_neg PosInf = NegInf"
| "js_neg NaN = NaN"

fun js_add :: "jsnum \<Rightarrow> jsnum \<Rightarrow> jsnum" where
  "js_add NaN b = NaN"
| "js_add a NaN = NaN"
| "js_add (Fin x) (Fin y) = Fin (x + y)"
| "js_add PosInf NegInf = NaN"
| "js_add NegInf PosInf = NaN"
| "js_add PosInf b = PosInf"
| "js_add NegInf b = NegInf"
| "js_add a b = b"

definition js_sub :: "jsnum \<Rightarrow> jsnum \<Rightarrow> jsnum" where
  "js_sub a b = js_add a (js_neg b)"

text \<open>Division by a positive finite constant (the handler divides by 14 and by 7 only).\<close>

fun js_div :: "jsnum \<Rightarrow> real \<Rightarrow> jsnum" where
  "js_div (Fin x) d = Fin (x / d)"
| "js_div n d = n"

datatype jsval =
    Undefined
  | Null
  | JBool bool
  | JNum jsnum
  | JStr string
  | JArr "jsval list"
  | JObj "(string \<times> jsval) list"

text \<open>
  What the JavaScript runtime supplies and the repository does not define:
  \<^verbatim>\<open>JSON.parse\<close> (\<open>None\<close> when it throws a SyntaxError), and the conversion to a number
  of a string, an array or an object (\<open>None\<close> when the conversion throws). Both are
  parameters of the model.
\<close>

record runtime =
  JSON_parse :: "string \<Rightarrow> jsval option"
  coerce :: "jsval \<Rightarrow> jsnum option"

text \<open>The conversion that \<^verbatim>\<open>Math.round\<close> applies to its argument.\<close>

definition ToNumber :: "runtime \<Rightarrow> jsval \<Rightarrow> jsnum option" where
  "ToNumber rt v =
     (case v of
        Undefined \<Rightarrow> Some NaN
      | Null \<Rightarrow> Some (Fin 0)
      | JBool b \<Rightarrow> Some (Fin (if b then 1 else 0))
      | JNum n \<Rightarrow> Some n
      | _ \<Rightarrow> coerce rt v)"

text \<open>
  Reading a property by name: a TypeError (\<open>None\<close>) on undefined and null, the own
  property of an object, and undefined otherwise. It is used for the names the handler
  reads (choices, message, content, idea, idea_id, user_id and the four fields of the
  reply), none of which a string, an array or a prototype defines.
\<close>

fun get_prop :: "jsval \<Rightarrow> string \<Rightarrow> jsval option" where
  "get_prop Undefined k = None"
| "get_prop Null k = None"
| "get_prop (JObj kvs) k = Some (case map_of kvs k of None \<Rightarrow> Undefined | Some v \<Rightarrow> v)"
| "get_prop v k = Some Undefined"

text \<open>Reading index 0, as in \<^verbatim>\<open>data.choices[0]\<close>.\<close>

fun get_index0 :: "jsval \<Rightarrow> jsval option" where
  "get_index0 Undefined = None"
| "get_index0 Null = None"
| "get_index0 (JArr xs) = Some (case xs of [] \<Rightarrow> Undefined | x # _ \<Rightarrow> x)"
| "get_index0 (JStr s) = Some (case s of [] \<Rightarrow> Undefined | ch # _ \<Rightarrow> JStr [ch])"
| "get_index0 (JObj kvs) = Some (case map_of kvs ''0'' of None \<Rightarrow> Undefined | Some v \<Rightarrow> v)"
| "get_index0 v = Some Undefined"

fun truthy :: "jsval \<Rightarrow> bool" where
  "truthy Undefined = False"
| "truthy Null = False"
| "truthy (JBool b) = b"
| "truthy (JNum n) = (n \<noteq> NaN \<and> n \<noteq> Fin 0)"
| "truthy (JStr s) = (s \<noteq> [])"
| "truthy v = True"

section \<open>Strings\<close>

text \<open>
  Strings are lists of code units below 256: the characters U+0000 to U+00FF of a
  JavaScript string. The white space that \<^verbatim>\<open>trim\<close> removes and \<^verbatim>\<open>\s\<close> matches is, in
  that range, the space, the characters U+0009 to U+000D and the no-break space U+00A0.
  \<^verbatim>\<open>toLowerCase\<close> maps A to Z, and U+00C0 to U+00DE except the multiplication sign
  U+00D7, to the character 32 places further.
\<close>

definition is_ws :: "char \<Rightarrow> bool" where
  "is_ws ch =
     (ch \<in> set [CHR '' '', CHR 0x09, CHR 0x0A, CHR 0x0B, CHR 0x0C, CHR 0x0D, CHR 0xA0])"

definition js_trim :: "string \<Rightarrow> string" where
  "js_trim s = rev (dropWhile is_ws (rev (dropWhile is_ws s)))"

definition lower_char :: "char \<Rightarrow> char" where
  "lower_char ch =
     (let n = (of_char ch :: nat)
      in if (65 \<le> n \<and> n \<le> 90) \<or> (192 \<le> n \<and> n \<le> 222 \<and> n \<noteq> 215)
         then char_of (n + 32) else ch)"

definition toLowerCase :: "string \<Rightarrow> string" where
  "toLowerCase s = map lower_char s"

text \<open>
  \<^verbatim>\<open>s.split(/\s+/)\<close>: the pieces of \<open>s\<close> between its maximal runs of white space.
\<close>

function split_ws :: "string \<Rightarrow> string list" where
  "split_ws s =
     (let piece = takeWhile (\<lambda>ch. \<not> is_ws ch) s;
          rest = dropWhile (\<lambda>ch. \<not> is_ws ch) s
      in if rest = [] then [piece] else piece # split_ws (dropWhile is_ws rest))"
  by pat_completeness auto
termination
proof (relation "measure length")
  show "wf (measure length)" by simp
next
  fix s :: string and piece rest
  assume rest: "rest = dropWhile (\<lambda>ch. \<not> is_ws ch) s" and ne: "rest \<noteq> []"
  from ne obtain y ys where r: "rest = y # ys" by (cases rest) auto
  have "is_ws y" using rest r by (auto simp: dropWhile_eq_Cons_conv dest: sym)
  then have "length (dropWhile is_ws rest) \<le> length ys"
    using r by (simp add: length_dropWhile_le)
  moreover have "length rest \<le> length s"
    using rest by (simp add: length_dropWhile_le)
  ultimately show "(dropWhile is_ws rest, s) \<in> measure length"
    using r by simp
qed

text \<open>
  The number of matches of the global, case-insensitive regular expression built from the
  escaped keyword \<open>kw\<close>: the occurrences of \<open>kw\<close> in \<open>s\<close>, found from left to right, the
  search resuming after each match.
\<close>

function count_occ :: "string \<Rightarrow> string \<Rightarrow> nat" where
  "count_occ kw s =
     (if kw = [] then Suc (length s)
      else if s = [] then 0
      else if take (length kw) s = kw then Suc (count_occ kw (drop (length kw) s))
      else count_occ kw (tl s))"
  by pat_completeness auto
termination
  by (relation "measure (\<lambda>(kw, s). length s)") (auto simp: Suc_le_eq)

definition countMatches :: "string \<Rightarrow> string list \<Rightarrow> nat" where
  "countMatches text keywords =
     (let lower = toLowerCase text
      in foldl (\<lambda>count kw. count + count_occ (toLowerCase kw) lower) 0 keywords)"

text \<open>\<^verbatim>\<open>content.replace(/```json|```/g, "")\<close>\<close>

fun strip_fences :: "string \<Rightarrow> string" where
  "strip_fences [] = []"
| "strip_fences (ch # cs) =
     (if take 7 (ch # cs) = ''```json'' then strip_fences (drop 6 cs)
      else if take 3 (ch # cs) = ''```'' then strip_fences (drop 2 cs)
      else ch # strip_fences cs)"

declare split_ws.simps [simp del]
declare count_occ.simps [simp del]

section \<open>Keyword lists and scoring helpers\<close>

definition AI_KEYWORDS :: "string list" where
  "AI_KEYWORDS =
     [''ai'', ''artificial intelligence'', ''machine learning'', ''ml'', ''llm'', ''gpt'',
      ''neural'', ''deep learning'', ''nlp'', ''computer vision'', ''generative'', ''agent'',
      ''autonomous'', ''copilot'', ''chatbot'', ''embedding'', ''vector'', ''diffusion'',
      ''transformer'', ''fine-tun'', ''rag'', ''multimodal'']"

definition BUZZWORDS :: "string list" where
  "BUZZWORDS =
     [''blockchain'', ''web3'', ''nft'', ''crypto'', ''metaverse'', ''defi'', ''dao'',
      ''disrupt'', ''disruption'', ''10x'', ''100x'', ''democratize'', ''revolutionize'',
      ''paradigm'', ''synergy'', ''ecosystem'', ''scalable'', ''scale'', ''platform'',
      ''network effect'', ''frictionless'', ''seamless'', ''uber for'', ''airbnb for'',
      ''tinder for'', ''future of'', ''next generation'', ''next-gen'', ''world-class'',
      ''best-in-class'', ''end-to-end'', ''full-stack'', ''holistic'', ''leverage'',
      ''ideate'', ''pivot'', ''mvp'', ''b2b'', ''b2c'', ''saas'', ''paas'']"

definition CRINGE_PHRASES :: "string list" where
  "CRINGE_PHRASES =
     [''change the world'', ''make the world a better place'', ''passionate'',
      ''on a mission'', ''we believe'', ''i believe'', ''journey'', ''space'',
      ''in the x space'', ''the x space'', ''move fast'', ''hustle'', ''grind'',
      ''thought leader'', ''serial entrepreneur'', ''visionary'', ''disrupting the'',
      ''pain point'', ''game changer'', ''game-changer'', ''low-hanging fruit'',
      ''move the needle'', ''circle back'', ''deep dive'', ''at the end of the day'',
      ''skin in the game'', ''fail fast'', ''growth hacking'', ''north star'',
      ''bleeding edge'', ''cutting edge'', ''first principles'']"

text \<open>
  \<^verbatim>\<open>clamp(val, min = 0, max = 100)\<close>; the callers that leave a bound out are given the
  default explicitly.
\<close>

definition clamp :: "jsnum \<Rightarrow> jsnum \<Rightarrow> jsnum \<Rightarrow> jsnum" where
  "clamp val mn mx = Math_min (Math_max (Math_round val) mn) mx"

text \<open>
  \<^verbatim>\<open>Math.floor(Math.random() * 14) - 7\<close>, for the value \<open>r\<close> that \<^verbatim>\<open>Math.random()\<close>
  returned.
\<close>

definition jitter_of :: "real \<Rightarrow> real" where
  "jitter_of r = real_of_int \<lfloor>r * 14\<rfloor> - 7"

text \<open>
  \<^verbatim>\<open>scoreFromHits(hits, ramp)\<close>, with the random draw \<open>r\<close> as an argument. \<open>hits\<close> is a
  count of matches, and every caller passes a positive ramp.
\<close>

definition scoreFromHits :: "real \<Rightarrow> nat \<Rightarrow> real \<Rightarrow> jsnum" where
  "scoreFromHits r hits ramp =
     (let jitter = jitter_of r
      in if hits = 0 then clamp (Fin (60 + jitter)) (Fin 0) (Fin 100)
         else let base = min 100 (real_of_int \<lfloor>65 + 22 * ln (real hits * ramp) + 1 / 2\<rfloor>)
              in clamp (Fin (base + jitter)) (Fin 0) (Fin 100))"

text \<open>
  The score of \<open>scoreFromHits\<close> before the jitter is added: the constant 60 on no hit, the
  local \<open>base\<close> otherwise (see \<open>scoreFromHits_base\<close> below).
\<close>

definition base_score :: "nat \<Rightarrow> real \<Rightarrow> real" where
  "base_score hits ramp =
     (if hits = 0 then 60
      else min 100 (real_of_int \<lfloor>65 + 22 * ln (real hits * ramp) + 1 / 2\<rfloor>))"

section \<open>The handler\<close>

record ScoreResponse =
  ai_hype_beast :: jsnum
  buzzword_density :: jsnum
  cringe_founder_energy :: jsnum
  market_viability :: jsnum
  pivot_to_ai_probability :: jsnum
  yc_bait_score :: jsnum
  delusion_index :: jsnum
  founder_rank :: jsval
  goblin_verdict :: jsval
  composite_score :: jsnum

text \<open>The five values of \<^verbatim>\<open>Math.random()\<close> that one scoring run draws, in order.\<close>

record draws =
  r_ai :: real
  r_buzz :: real
  r_cringe :: real
  r_market :: real
  r_pivot :: real

text \<open>
  The outcome of the call of the text-generation service: \<^verbatim>\<open>fetch\<close> rejects; or the
  response is not ok (the flag says whether reading its text succeeds); or it is ok and
  \<^verbatim>\<open>response.json()\<close> gives a value (\<open>None\<close> when it rejects).
\<close>

datatype upstream = FetchThrows | NotOk bool | OkJson "jsval option"

text \<open>
  What one run of the handler reads from outside: the time, the random draws and the
  outcome of the call of the service. The prompt sent to the service is not modelled; its
  reply is an input.
\<close>

record env =
  now :: nat
  rnd :: draws
  upstream :: upstream

record request =
  http_method :: string
  x_forwarded_for :: "string option"
  remoteAddress :: "string option"
  body :: jsval

datatype reply_body = ErrorBody string | ScoreBody ScoreResponse

text \<open>
  A response with its status, or \<open>Unhandled\<close>: an exception that leaves the handler
  (destructuring a body that is null or undefined happens outside the try block).
\<close>

datatype response = Reply nat reply_body | Unhandled

text \<open>
  What one run of the handler does: its response, the rate limiter's cache afterwards,
  whether the text-generation service was called, and the row inserted into the scores
  table, if any (idea_id, user_id and the scores).
\<close>

record outcome =
  response :: response
  limiter :: cache
  llm_called :: bool
  inserted :: "(jsval \<times> jsval \<times> ScoreResponse) option"

definition client_ip :: "request \<Rightarrow> string" where
  "client_ip req =
     (case x_forwarded_for req of
        Some h \<Rightarrow> js_trim (takeWhile (\<lambda>ch. ch \<noteq> CHR '','') h)
      | None \<Rightarrow> (case remoteAddress req of Some a \<Rightarrow> a | None \<Rightarrow> ''unknown''))"

text \<open>Sections 1 to 3 of the handler: the three keyword-driven metrics.\<close>

definition keyword_scores :: "draws \<Rightarrow> string \<Rightarrow> jsnum \<times> jsnum \<times> jsnum" where
  "keyword_scores rs idea =
     (let aiHits = countMatches idea AI_KEYWORDS;
          ai_hype_beast = scoreFromHits (r_ai rs) aiHits (5 / 2);
          buzzHits = countMatches idea BUZZWORDS;
          buzzRaw = scoreFromHits (r_buzz rs) buzzHits 2;
          buzzword_density = clamp buzzRaw (Fin 0) (Fin 100);
          cringeHits = countMatches idea CRINGE_PHRASES;
          cringe_founder_energy = scoreFromHits (r_cringe rs) cringeHits 3
      in (ai_hype_beast, buzzword_density, cringe_founder_energy))"

text \<open>Section 4: market viability.\<close>

definition market_viability_of :: "real \<Rightarrow> nat \<Rightarrow> jsnum \<Rightarrow> jsnum \<Rightarrow> jsnum" where
  "market_viability_of r wordCount ai buzz =
     (let specificityBonus = min (real wordCount / (12 / 10)) 30;
          hypePenalty = Math_round (js_div (js_add ai buzz) 14);
          marketBase = js_sub (Fin (55 + specificityBonus)) hypePenalty;
          jitter = jitter_of r
      in clamp (js_add marketBase (Fin jitter)) (Fin 0) (Fin 100))"

text \<open>Section 5: the pivot-to-AI probability; the first branch that matches wins.\<close>

definition pivot_of :: "real \<Rightarrow> jsnum \<Rightarrow> jsnum \<Rightarrow> jsnum \<Rightarrow> jsnum" where
  "pivot_of r ai buzz mv =
     (if js_ge ai (Fin 60) then clamp (Fin (55 + real_of_int \<lfloor>r * 20\<rfloor>)) (Fin 0) (Fin 100)
      else if js_ge buzz (Fin 50) then clamp (Fin (82 + real_of_int \<lfloor>r * 15\<rfloor>)) (Fin 0) (Fin 100)
      else if js_ge mv (Fin 55) then clamp (Fin (70 + real_of_int \<lfloor>r * 20\<rfloor>)) (Fin 0) (Fin 100)
      else clamp (Fin (65 + real_of_int \<lfloor>r * 25\<rfloor>)) (Fin 0) (Fin 100))"

text \<open>
  \<^verbatim>\<open>data.choices[0].message.content\<close> followed by \<^verbatim>\<open>content.replace\<close>, which only a
  string has: \<open>None\<close> stands for the TypeError of any step.
\<close>

definition extract_content :: "jsval \<Rightarrow> string option" where
  "extract_content data =
     do {
       choices \<leftarrow> get_prop data ''choices'';
       first \<leftarrow> get_index0 choices;
       message \<leftarrow> get_prop first ''message'';
       content \<leftarrow> get_prop message ''content'';
       case content of JStr s \<Rightarrow> Some s | _ \<Rightarrow> None
     }"

definition parse_reply :: "runtime \<Rightarrow> string \<Rightarrow> jsval option" where
  "parse_reply rt content = JSON_parse rt (js_trim (strip_fences content))"

text \<open>
  The parsed reply of the service, when every step up to \<^verbatim>\<open>JSON.parse\<close> succeeds.
\<close>

definition llm_reply :: "runtime \<Rightarrow> env \<Rightarrow> jsval option" where
  "llm_reply rt ev =
     (case upstream ev of
        OkJson (Some data) \<Rightarrow> do { content \<leftarrow> extract_content data; parse_reply rt content }
      | _ \<Rightarrow> None)"

text \<open>
  The four fields read from the parsed reply: the two numbers through \<open>clamp\<close> (whose
  \<^verbatim>\<open>Math.round\<close> converts them), the rank and the verdict as they are.
\<close>

definition augment :: "runtime \<Rightarrow> jsval \<Rightarrow> (jsnum \<times> jsnum \<times> jsval \<times> jsval) option" where
  "augment rt llmJson =
     do {
       yc_raw \<leftarrow> get_prop llmJson ''yc_bait_score'';
       yc_num \<leftarrow> ToNumber rt yc_raw;
       di_raw \<leftarrow> get_prop llmJson ''delusion_index'';
       di_num \<leftarrow> ToNumber rt di_raw;
       rank \<leftarrow> get_prop llmJson ''founder_rank'';
       verdict \<leftarrow> get_prop llmJson ''goblin_verdict'';
       Some (clamp yc_num (Fin 0) (Fin 100), clamp di_num (Fin 55) (Fin 100), rank, verdict)
     }"

definition composite_of :: "jsnum \<Rightarrow> jsnum \<Rightarrow> jsnum \<Rightarrow> jsnum \<Rightarrow> jsnum \<Rightarrow> jsnum \<Rightarrow> jsnum \<Rightarrow> jsnum" where
  "composite_of ai buzz cringe mv pivot yc di =
     clamp (Math_round (js_div
       (js_add (js_add (js_add (js_add (js_add (js_add ai buzz) cringe) mv) pivot) yc) di) 7))
       (Fin 0) (Fin 100)"

definition make_result ::
  "draws \<Rightarrow> string \<Rightarrow> jsnum \<times> jsnum \<times> jsval \<times> jsval \<Rightarrow> ScoreResponse" where
  "make_result rs idea llm =
     (let wordCount = length (split_ws (js_trim idea));
          (ai, buzz, cringe) = keyword_scores rs idea;
          mv = market_viability_of (r_market rs) wordCount ai buzz;
          pivot = pivot_of (r_pivot rs) ai buzz mv;
          (yc, di, rank, verdict) = llm
      in \<lparr>ai_hype_beast = ai, buzzword_density = buzz, cringe_founder_energy = cringe,
          market_viability = mv, pivot_to_ai_probability = pivot, yc_bait_score = yc,
          delusion_index = di, founder_rank = rank, goblin_verdict = verdict,
          composite_score = composite_of ai buzz cringe mv pivot yc di\<rparr>)"

definition err500 :: response where
  "err500 = Reply 500 (ErrorBody ''Internal server error'')"

text \<open>
  The try block of the handler, for the destructured body: the response, whether the
  service was called, and the inserted row. Every exception ends in the catch clause
  (\<open>err500\<close>). A truthy idea that is not a string has no \<^verbatim>\<open>trim\<close> method.
\<close>

definition try_block ::
  "runtime \<Rightarrow> env \<Rightarrow> jsval \<Rightarrow> jsval \<Rightarrow> jsval
     \<Rightarrow> response \<times> bool \<times> (jsval \<times> jsval \<times> ScoreResponse) option" where
  "try_block rt ev idea idea_id user_id =
     (case idea of
        JStr s \<Rightarrow>
          (case upstream ev of
             FetchThrows \<Rightarrow> (err500, True, None)
           | NotOk text_ok \<Rightarrow>
               (if text_ok then Reply 500 (ErrorBody ''LLM request failed'') else err500,
                True, None)
           | OkJson data \<Rightarrow>
               (case llm_reply rt ev \<bind> augment rt of
                  None \<Rightarrow> (err500, True, None)
                | Some llm \<Rightarrow>
                    (let result = make_result (rnd ev) s llm
                     in (Reply 200 (ScoreBody result), True,
                         if truthy idea_id \<and> truthy user_id
                         then Some (idea_id, user_id, result) else None))))
      | _ \<Rightarrow> (err500, False, None))"

text \<open>
  The handler, from the cache before the request: the method check, the rate-limit check,
  the destructuring of the body, the test of the idea, then the try block. The failure
  of the insert is only logged, so the outcome of the insert is not an input.
\<close>

definition handler :: "runtime \<Rightarrow> env \<Rightarrow> request \<Rightarrow> cache \<Rightarrow> outcome" where
  "handler rt ev req c =
     (if http_method req \<noteq> ''POST''
      then \<lparr>response = Reply 405 (ErrorBody ''Method not allowed''), limiter = c,
            llm_called = False, inserted = None\<rparr>
      else
        let ip = client_ip req;
            (rl, c1) = getRateLimit (now ev) ip c
        in if \<not> allowed rl
           then \<lparr>response = Reply 429 (ErrorBody ''The Oracle needs rest. Try again later.''),
                 limiter = c1, llm_called = False, inserted = None\<rparr>
           else
             (case (get_prop (body req) ''idea'', get_prop (body req) ''idea_id'',
                    get_prop (body req) ''user_id'') of
                (Some idea, Some idea_id, Some user_id) \<Rightarrow>
                  if \<not> truthy idea
                  then \<lparr>response = Reply 400 (ErrorBody ''Missing idea''), limiter = c1,
                        llm_called = False, inserted = None\<rparr>
                  else
                    let (resp, called, row) = try_block rt ev idea idea_id user_id
                    in \<lparr>response = resp, limiter = c1, llm_called = called, inserted = row\<rparr>
              | _ \<Rightarrow> \<lparr>response = Unhandled, limiter = c1, llm_called = False,
                       inserted = None\<rparr>))"

text \<open>A sequence of requests served one after the other on the same cache.\<close>

fun serve_all :: "runtime \<Rightarrow> (env \<times> request) list \<Rightarrow> cache \<Rightarrow> outcome list" where
  "serve_all rt [] c = []"
| "serve_all rt ((ev, req) # rest) c =
     (let out = handler rt ev req c in out # serve_all rt rest (limiter out))"

text \<open>
  A request got past the rate limiter when its response is neither the 405 of the method
  check (which comes before the limiter) nor the 429 of the limiter.
\<close>

definition passed_limiter :: "outcome \<Rightarrow> bool" where
  "passed_limiter out =
     (case response out of Reply st b \<Rightarrow> st \<noteq> 405 \<and> st \<noteq> 429 | Unhandled \<Rightarrow> True)"

text \<open>The outcomes of the requests of identity \<open>k\<close> among \<open>reqs\<close>, in order.\<close>

definition outcomes_for :: "string \<Rightarrow> runtime \<Rightarrow> (env \<times> request) list \<Rightarrow> cache \<Rightarrow> outcome list" where
  "outcomes_for k rt reqs c =
     map snd (filter (\<lambda>(r, out). client_ip (snd r) = k) (zip reqs (serve_all rt reqs c)))"

section \<open>Properties stated by the specification\<close>

text \<open>A metric that is an integer lying between \<open>lo\<close> and \<open>hi\<close>.\<close>

definition int_in_range :: "int \<Rightarrow> int \<Rightarrow> jsnum \<Rightarrow> bool" where
  "int_in_range lo hi n =
     (case n of
        Fin x \<Rightarrow> real_of_int \<lfloor>x\<rfloor> = x \<and> real_of_int lo \<le> x \<and> x \<le> real_of_int hi
      | _ \<Rightarrow> False)"

text \<open>
  The composite score in the words of the specification: the unweighted arithmetic mean of
  the metrics, rounded to the nearest integer and clamped to 0..100.
\<close>

definition spec_composite :: "real list \<Rightarrow> int" where
  "spec_composite ms = max 0 (min 100 (round (sum_list ms / real (length ms))))"

text \<open>
  The specification calls the score on no hit a small non-zero baseline, a small range above
  0. Read in the most generous way: a positive integer below the middle of the scale.
\<close>

definition low_floor_band :: "jsnum \<Rightarrow> bool" where
  "low_floor_band n = int_in_range 1 49 n"

section \<open>Example inputs\<close>

text \<open>
  The body of a successful reply of the text-generation service with the given content.
\<close>

definition envelope :: "string \<Rightarrow> jsval" where
  "envelope content =
     JObj [(''choices'', JArr [JObj [(''message'', JObj [(''content'', JStr content)])]])]"

text \<open>
  \<^verbatim>\<open>JSON.parse\<close> on the texts that the examples use: four objects, and a SyntaxError on
  any other text (of which the examples use \<open>not json\<close> only). The examples hold numbers
  only where a number is converted, so that \<open>coerce\<close> is never applied.
\<close>

definition sample_parse :: "string \<Rightarrow> jsval option" where
  \<open>sample_parse = map_of
     [(''{}'', JObj []),
      (''{"yc_bait_score": 80, "delusion_index": 90, "founder_rank": "Chad", "goblin_verdict": "ok"}'',
       JObj [(''yc_bait_score'', JNum (Fin 80)), (''delusion_index'', JNum (Fin 90)),
             (''founder_rank'', JStr ''Chad''), (''goblin_verdict'', JStr ''ok'')]),
      (''{"yc_bait_score": 80, "delusion_index": 90, "founder_rank": "Sigma", "goblin_verdict": "ok"}'',
       JObj [(''yc_bait_score'', JNum (Fin 80)), (''delusion_index'', JNum (Fin 90)),
             (''founder_rank'', JStr ''Sigma''), (''goblin_verdict'', JStr ''ok'')]),
      (''{"delusion_index": 90, "founder_rank": "Chad", "goblin_verdict": "ok"}'',
       JObj [(''delusion_index'', JNum (Fin 90)),
             (''founder_rank'', JStr ''Chad''), (''goblin_verdict'', JStr ''ok'')])]\<close>

definition sample_runtime :: runtime where
  "sample_runtime = \<lparr>JSON_parse = sample_parse, coerce = (\<lambda>v. Some NaN)\<rparr>"

text \<open>Every draw of \<^verbatim>\<open>Math.random()\<close> is 0: the lowest jitter.\<close>

definition zero_draws :: draws where
  "zero_draws = \<lparr>r_ai = 0, r_buzz = 0, r_cringe = 0, r_market = 0, r_pivot = 0\<rparr>"

text \<open>At time \<open>t\<close>, the service replies with the given content.\<close>

definition sample_env :: "nat \<Rightarrow> string \<Rightarrow> env" where
  "sample_env t content =
     \<lparr>now = t, rnd = zero_draws, upstream = OkJson (Some (envelope content))\<rparr>"

text \<open>A POST from the given forwarded address with the given body.\<close>

definition post_from :: "string \<Rightarrow> jsval \<Rightarrow> request" where
  "post_from addr b =
     \<lparr>http_method = ''POST'', x_forwarded_for = Some addr, remoteAddress = None, body = b\<rparr>"

text \<open>A POST with neither a forwarded address nor a socket address.\<close>

definition anonymous_post :: "jsval \<Rightarrow> request" where
  "anonymous_post b =
     \<lparr>http_method = ''POST'', x_forwarded_for = None, remoteAddress = None, body = b\<rparr>"

text \<open>
  A crowd of callers with forwarded addresses that differ from one another: the address
  number \<open>n\<close> is the letter x written \<open>n + 1\<close> times.
\<close>

definition crowd_name :: "nat \<Rightarrow> string" where
  "crowd_name n = replicate (Suc n) CHR ''x''"

text \<open>
  Five anonymous requests, then one request from each of as many callers as the cache has
  room for, then one more anonymous request; all of them within 60 milliseconds.
\<close>

definition flood_requests :: "(env \<times> request) list" where
  "flood_requests =
     map (\<lambda>t. (sample_env t ''{}'', anonymous_post (JObj []))) [10, 20, 30, 40, 50]
     @ map (\<lambda>n. (sample_env 60 ''{}'', post_from (crowd_name n) (JObj []))) [0..<max_entries]
     @ [(sample_env 70 ''{}'', anonymous_post (JObj []))]"

section \<open>The rate limiter: proofs\<close>

lemma find_remove_key: "find (\<lambda>e. fst e = k) (remove_key k c) = None"
  by (induction c) (auto simp: remove_key_def)

lemma remove_key_idem: "remove_key k (remove_key k c) = remove_key k c"
  by (simp add: remove_key_def)

lemma getRateLimit_fresh:
  assumes "find (\<lambda>e. fst e = ip) c = None"
  shows "getRateLimit t ip c =
    (\<lparr>allowed = True, remaining = 4\<rparr>,
     (ip, 1, t) # (if length c = max_entries then butlast c else c))"
  using assms by (simp add: getRateLimit_def lru_get_def lru_set_def REQUESTS_PER_HOUR_def)

lemma getRateLimit_stale:
  assumes "find (\<lambda>e. fst e = k) c = Some (k', v, s)" and "t - s > ttl"
  shows "getRateLimit t k c =
    (\<lparr>allowed = True, remaining = 4\<rparr>,
     (k, 1, t) # (if length (remove_key k c) = max_entries then butlast (remove_key k c)
                  else remove_key k c))"
  using assms
  by (simp add: getRateLimit_def lru_get_def lru_set_def REQUESTS_PER_HOUR_def find_remove_key)

lemma getRateLimit_live_allowed:
  assumes "find (\<lambda>e. fst e = k) c = Some (k', v, s)" and "t - s \<le> ttl" and "v < 5"
  shows "getRateLimit t k c =
    (\<lparr>allowed = True, remaining = 4 - int v\<rparr>, (k, Suc v, t) # remove_key k c)"
  using assms
  by (simp add: getRateLimit_def lru_get_def lru_set_def REQUESTS_PER_HOUR_def remove_key_def)

lemma getRateLimit_live_denied:
  assumes "find (\<lambda>e. fst e = k) c = Some (k', v, s)" and "t - s \<le> ttl" and "5 \<le> v"
  shows "getRateLimit t k c =
    (\<lparr>allowed = False, remaining = 0\<rparr>, (k, v, s) # remove_key k c)"
  using assms
  by (simp add: getRateLimit_def lru_get_def REQUESTS_PER_HOUR_def)

lemma getRateLimit_head_allowed:
  assumes "t - s \<le> ttl" and "v < 5"
  shows "getRateLimit t ip ((ip, v, s) # c) =
    (\<lparr>allowed = True, remaining = 4 - int v\<rparr>, (ip, Suc v, t) # remove_key ip c)"
  using assms
  by (simp add: getRateLimit_def lru_get_def lru_set_def REQUESTS_PER_HOUR_def
      remove_key_def)

lemma getRateLimit_head_denied:
  assumes "t - s \<le> ttl" and "5 \<le> v"
  shows "getRateLimit t ip ((ip, v, s) # c) =
    (\<lparr>allowed = False, remaining = 0\<rparr>, (ip, v, s) # remove_key ip c)"
  using assms
  by (simp add: getRateLimit_def lru_get_def REQUESTS_PER_HOUR_def remove_key_def)

lemma set_remove_key: "set (remove_key k c) \<subseteq> set c"
  by (auto simp: remove_key_def)

lemma find_key_in_set:
  "find (\<lambda>e. fst e = k) c = Some e \<Longrightarrow> e \<in> set c \<and> fst e = k"
  by (auto simp: find_Some_iff)

lemma lru_get_set: "set (snd (lru_get t k c)) \<subseteq> set c"
  using set_remove_key[of k c]
  by (auto simp: lru_get_def split: option.splits prod.splits dest: find_key_in_set)

lemma check_all_Cons:
  "check_all ((t, ip) # rest) c =
     (fst (getRateLimit t ip c) # fst (check_all rest (snd (getRateLimit t ip c))),
      snd (check_all rest (snd (getRateLimit t ip c))))"
  by (simp split: prod.splits)

lemma check_all_snd_Cons:
  "snd (check_all ((t, ip) # rest) c) = snd (check_all rest (snd (getRateLimit t ip c)))"
  by (simp add: check_all_Cons del: check_all.simps(2))

lemma lru_set_set: "set (lru_set t k v c) \<subseteq> insert (k, v, t) (set c)"
  using set_remove_key[of k c]
  by (auto simp: lru_set_def split: option.splits dest: in_set_butlastD)

lemma getRateLimit_bounded:
  assumes "list_all (\<lambda>e. fst (snd e) \<le> REQUESTS_PER_HOUR) c"
  shows "list_all (\<lambda>e. fst (snd e) \<le> REQUESTS_PER_HOUR) (snd (getRateLimit t ip c))"
proof -
  obtain got c1 where g: "lru_get t ip c = (got, c1)" by (cases "lru_get t ip c")
  have c1: "set c1 \<subseteq> set c" using lru_get_set[of t ip c] g by simp
  show ?thesis
  proof (cases "(case got of None \<Rightarrow> 0 | Some v \<Rightarrow> v) \<ge> REQUESTS_PER_HOUR")
    case True
    then show ?thesis using assms c1 g
      by (auto simp: getRateLimit_def list_all_iff)
  next
    case False
    define cur where "cur = (case got of None \<Rightarrow> 0 | Some v \<Rightarrow> v)"
    have cur: "Suc cur \<le> REQUESTS_PER_HOUR" using False by (simp add: cur_def)
    have res: "snd (getRateLimit t ip c) = lru_set t ip (Suc cur) c1"
      using False g by (simp add: getRateLimit_def cur_def Let_def)
    have "\<forall>e\<in>set (lru_set t ip (Suc cur) c1). fst (snd e) \<le> REQUESTS_PER_HOUR"
      using assms c1 cur lru_set_set[of t ip "Suc cur" c1]
      by (fastforce simp: list_all_iff)
    then show ?thesis by (simp add: res list_all_iff)
  qed
qed

lemma check_all_bounded:
  "list_all (\<lambda>e. fst (snd e) \<le> REQUESTS_PER_HOUR) c \<Longrightarrow>
   list_all (\<lambda>e. fst (snd e) \<le> REQUESTS_PER_HOUR) (snd (check_all calls c))"
proof (induction calls arbitrary: c)
  case Nil
  then show ?case by simp
next
  case (Cons a calls)
  obtain t ip where a: "a = (t, ip)" by (cases a)
  show ?case
    using Cons.IH[OF getRateLimit_bounded[OF Cons.prems, of t ip]]
    by (simp add: a check_all_Cons del: check_all.simps)
qed

lemma getRateLimit_allowed_head:
  assumes "allowed (fst (getRateLimit t k c))"
  shows "\<exists>v c'. snd (getRateLimit t k c) = (k, Suc v, t) # c'"
  using assms
  by (auto simp: getRateLimit_def lru_set_def Let_def split: prod.splits option.splits if_splits)

lemma getRateLimit_empty:
  "getRateLimit t ip [] = (\<lparr>allowed = True, remaining = 4\<rparr>, [(ip, 1, t)])"
  by (simp add: getRateLimit_fresh max_entries_def)

lemma getRateLimit_allowed_count:
  assumes "allowed (fst (getRateLimit t ip c))"
  shows "stored_count (snd (getRateLimit t ip c)) ip =
           Some (Suc (case fst (lru_get t ip c) of None \<Rightarrow> 0 | Some v \<Rightarrow> v))"
  using assms
  by (auto simp: getRateLimit_def lru_set_def stored_count_def Let_def
      split: prod.splits option.splits if_splits)

lemma results_for_Nil: "results_for k [] c = []"
  by (simp add: results_for_def)

lemma results_for_Cons:
  "results_for k ((t, ip) # rest) c =
     (if ip = k then [fst (getRateLimit t ip c)] else [])
       @ results_for k rest (snd (getRateLimit t ip c))"
  by (simp add: results_for_def check_all_Cons del: check_all.simps(2))

lemma find_remove_other:
  "k' \<noteq> k \<Longrightarrow> find (\<lambda>e. fst e = k) (remove_key k' c) = find (\<lambda>e. fst e = k) c"
  by (induction c) (auto simp: remove_key_def)

lemma pos_remove_other: "k' \<noteq> k \<Longrightarrow> pos k (remove_key k' c) \<le> pos k c"
  by (induction c) (auto simp: remove_key_def pos_def)

lemma find_pos_length:
  "find (\<lambda>e. fst e = k) c = Some e \<Longrightarrow> pos k c < length c"
  by (induction c) (auto simp: pos_def split: if_splits)

lemma find_butlast:
  "find (\<lambda>e. fst e = k) c = Some e \<Longrightarrow> Suc (pos k c) < length c \<Longrightarrow>
   find (\<lambda>e. fst e = k) (butlast c) = Some e \<and> pos k (butlast c) = pos k c"
  by (induction c) (auto simp: pos_def split: if_splits)

lemma find_None_butlast:
  "find (\<lambda>e. fst e = k) c = None \<Longrightarrow> find (\<lambda>e. fst e = k) (butlast c) = None"
  by (induction c) (auto split: if_splits)

lemma find_pos_Cons_other:
  "fst x \<noteq> k \<Longrightarrow> find (\<lambda>e. fst e = k) (x # c) = find (\<lambda>e. fst e = k) c
     \<and> pos k (x # c) = Suc (pos k c)"
  by (simp add: pos_def)

lemma find_pos_head:
  "find (\<lambda>e. fst e = k) ((k, v, s) # c) = Some (k, v, s) \<and> pos k ((k, v, s) # c) = 0"
  by (simp add: pos_def)

text \<open>
  A call for another identity leaves the entry of \<open>k\<close> in the cache, one place further
  back at most, as long as the entry is not the least recently used of a full cache.
\<close>

lemma other_call_keeps:
  assumes "k' \<noteq> k" and "find (\<lambda>e. fst e = k) c = Some e" and "pos k c \<le> n"
    and "Suc n < max_entries"
  shows "find (\<lambda>e. fst e = k) (snd (getRateLimit t k' c)) = Some e
       \<and> pos k (snd (getRateLimit t k' c)) \<le> Suc n"
proof -
  let ?r = "remove_key k' c"
  have fr: "find (\<lambda>e. fst e = k) ?r = Some e" using assms(1,2) by (simp add: find_remove_other)
  have pr: "pos k ?r \<le> n" using pos_remove_other[OF assms(1), of c] assms(3) by simp
  have bl: "length ?r = max_entries \<Longrightarrow>
      find (\<lambda>e. fst e = k) (butlast ?r) = Some e \<and> pos k (butlast ?r) = pos k ?r"
    using find_butlast[OF fr] pr assms(4) by simp
  have bc: "length c = max_entries \<Longrightarrow>
      find (\<lambda>e. fst e = k) (butlast c) = Some e \<and> pos k (butlast c) = pos k c"
    using find_butlast[OF assms(2)] assms(3,4) by simp
  show ?thesis
  proof (cases "find (\<lambda>e. fst e = k') c")
    case None
    show ?thesis
      unfolding getRateLimit_fresh[OF None]
      using assms bc find_pos_Cons_other[of "(k', 1, t)" k] by auto
  next
    case (Some e')
    obtain k'' v s where e': "e' = (k'', v, s)" by (cases e')
    note f = Some[unfolded e']
    consider "t - s > ttl" | "t - s \<le> ttl" "v < 5" | "t - s \<le> ttl" "5 \<le> v" by linarith
    then show ?thesis
    proof cases
      case 1
      show ?thesis
        unfolding getRateLimit_stale[OF f 1]
        using assms(1) fr pr bl find_pos_Cons_other[of "(k', 1, t)" k] by auto
    next
      case 2
      show ?thesis
        unfolding getRateLimit_live_allowed[OF f 2]
        using assms(1) fr pr find_pos_Cons_other[of "(k', Suc v, t)" k ?r] by auto
    next
      case 3
      show ?thesis
        unfolding getRateLimit_live_denied[OF f 3]
        using assms(1) fr pr find_pos_Cons_other[of "(k', v, s)" k ?r] by auto
    qed
  qed
qed

lemma other_call_absent:
  assumes "k' \<noteq> k" and "find (\<lambda>e. fst e = k) c = None"
  shows "find (\<lambda>e. fst e = k) (snd (getRateLimit t k' c)) = None"
proof -
  let ?r = "remove_key k' c"
  have fr: "find (\<lambda>e. fst e = k) ?r = None" using assms by (simp add: find_remove_other)
  show ?thesis
  proof (cases "find (\<lambda>e. fst e = k') c")
    case None
    show ?thesis
      unfolding getRateLimit_fresh[OF None]
      using assms find_None_butlast[of k c] by auto
  next
    case (Some e')
    obtain k'' v s where e': "e' = (k'', v, s)" by (cases e')
    note f = Some[unfolded e']
    consider "t - s > ttl" | "t - s \<le> ttl" "v < 5" | "t - s \<le> ttl" "5 \<le> v" by linarith
    then show ?thesis
    proof cases
      case 1
      show ?thesis
        unfolding getRateLimit_stale[OF f 1]
        using assms(1) fr find_None_butlast[of k ?r] by auto
    next
      case 2
      show ?thesis
        unfolding getRateLimit_live_allowed[OF f 2] using assms(1) fr by auto
    next
      case 3
      show ?thesis
        unfolding getRateLimit_live_denied[OF f 3] using assms(1) fr by auto
    qed
  qed
qed

lemma expected_result_allowed: "v < 5 \<Longrightarrow> expected_result v = \<lparr>allowed = True, remaining = 4 - int v\<rparr>"
  by (simp add: expected_result_def REQUESTS_PER_HOUR_def)

lemma expected_result_denied: "5 \<le> v \<Longrightarrow> expected_result v = \<lparr>allowed = False, remaining = 0\<rparr>"
  by (simp add: expected_result_def REQUESTS_PER_HOUR_def)

lemma tracked_results:
  assumes "find (\<lambda>e. fst e = k) c = Some (k, v, s)" and "pos k c \<le> n" and "lo \<le> s"
    and "\<forall>(t, ip)\<in>set calls. ip = k \<longrightarrow> lo \<le> t \<and> t \<le> lo + ttl"
    and "n + length (filter (\<lambda>(t, ip). ip \<noteq> k) calls) < max_entries"
  shows "results_for k calls c =
           map (\<lambda>i. expected_result (v + i)) [0..<length (filter (\<lambda>(t, ip). ip = k) calls)]
       \<and> (v \<le> 5 \<longrightarrow> stored_count (snd (check_all calls c)) k =
             Some (min 5 (v + length (filter (\<lambda>(t, ip). ip = k) calls))))"
  using assms
proof (induction calls arbitrary: c v s n)
  case Nil
  then show ?case by (simp add: results_for_Nil stored_count_def)
next
  case (Cons a calls)
  obtain t ip where a: "a = (t, ip)" by (cases a)
  have win: "\<forall>(t, ip)\<in>set calls. ip = k \<longrightarrow> lo \<le> t \<and> t \<le> lo + ttl"
    using Cons.prems(4) by auto
  show ?case
  proof (cases "ip = k")
    case False
    have n: "Suc n < max_entries"
      and room: "Suc n + length (filter (\<lambda>(t, ip). ip \<noteq> k) calls) < max_entries"
      using Cons.prems(5) False by (simp_all add: a)
    from other_call_keeps[OF False Cons.prems(1,2) n, of t]
    have f: "find (\<lambda>e. fst e = k) (snd (getRateLimit t ip c)) = Some (k, v, s)"
      and p: "pos k (snd (getRateLimit t ip c)) \<le> Suc n" by simp_all
    show ?thesis
      using Cons.IH[OF f p Cons.prems(3) win room] False
      by (simp add: a results_for_Cons check_all_snd_Cons del: check_all.simps(2))
  next
    case True
    have t: "lo \<le> t" "t - s \<le> ttl" using Cons.prems(3,4) True by (auto simp: a)
    have room: "0 + length (filter (\<lambda>(t, ip). ip \<noteq> k) calls) < max_entries"
      using Cons.prems(5) True by (simp add: a)
    note f = Cons.prems(1)
    show ?thesis
    proof (cases "v < 5")
      case v: True
      note g = getRateLimit_live_allowed[OF f t(2) v]
      have IH: "results_for k calls ((k, Suc v, t) # remove_key k c) =
           map (\<lambda>i. expected_result (Suc v + i)) [0..<length (filter (\<lambda>(t, ip). ip = k) calls)]
       \<and> (Suc v \<le> 5 \<longrightarrow> stored_count (snd (check_all calls ((k, Suc v, t) # remove_key k c))) k =
             Some (min 5 (Suc v + length (filter (\<lambda>(t, ip). ip = k) calls))))"
        using find_pos_head[of k "Suc v" t "remove_key k c"]
        by (intro Cons.IH[OF _ _ t(1) win room]) simp_all
      show ?thesis
        using IH v True
        by (simp add: a results_for_Cons check_all_snd_Cons g expected_result_allowed
            map_upt_Suc del: check_all.simps(2) upt_Suc)
    next
      case False
      then have v: "5 \<le> v" by simp
      note g = getRateLimit_live_denied[OF f t(2) v]
      have IH: "results_for k calls ((k, v, s) # remove_key k c) =
           map (\<lambda>i. expected_result (v + i)) [0..<length (filter (\<lambda>(t, ip). ip = k) calls)]
       \<and> (v \<le> 5 \<longrightarrow> stored_count (snd (check_all calls ((k, v, s) # remove_key k c))) k =
             Some (min 5 (v + length (filter (\<lambda>(t, ip). ip = k) calls))))"
        using find_pos_head[of k v s "remove_key k c"]
        by (intro Cons.IH[OF _ _ Cons.prems(3) win room]) simp_all
      have shift: "map (\<lambda>i. expected_result (v + Suc i)) [0..<m] = map (\<lambda>i. expected_result (v + i)) [0..<m]" for m
        using v by (simp add: expected_result_denied)
      show ?thesis
        using IH v True
        by (simp add: a results_for_Cons check_all_snd_Cons g expected_result_denied
            map_upt_Suc shift del: check_all.simps(2) upt_Suc)
    qed
  qed
qed

lemma fresh_results:
  assumes "find (\<lambda>e. fst e = k) c = None"
    and "\<forall>(t, ip)\<in>set calls. ip = k \<longrightarrow> lo \<le> t \<and> t \<le> lo + ttl"
    and "length (filter (\<lambda>(t, ip). ip \<noteq> k) calls) < max_entries"
  shows "results_for k calls c =
           map expected_result [0..<length (filter (\<lambda>(t, ip). ip = k) calls)]
       \<and> stored_count (snd (check_all calls c)) k =
           (if filter (\<lambda>(t, ip). ip = k) calls = [] then None
            else Some (min 5 (length (filter (\<lambda>(t, ip). ip = k) calls))))"
  using assms
proof (induction calls arbitrary: c)
  case Nil
  then show ?case by (simp add: results_for_Nil stored_count_def)
next
  case (Cons a calls)
  obtain t ip where a: "a = (t, ip)" by (cases a)
  have win: "\<forall>(t, ip)\<in>set calls. ip = k \<longrightarrow> lo \<le> t \<and> t \<le> lo + ttl"
    using Cons.prems(2) by auto
  show ?case
  proof (cases "ip = k")
    case False
    have room: "length (filter (\<lambda>(t, ip). ip \<noteq> k) calls) < max_entries"
      using Cons.prems(3) False by (simp add: a)
    show ?thesis
      using Cons.IH[OF other_call_absent[OF False Cons.prems(1), of t] win room] False
      by (simp add: a results_for_Cons check_all_snd_Cons del: check_all.simps(2))
  next
    case True
    have t: "lo \<le> t" using Cons.prems(2) True by (auto simp: a)
    have room: "0 + length (filter (\<lambda>(t, ip). ip \<noteq> k) calls) < max_entries"
      using Cons.prems(3) True by (simp add: a)
    let ?c1 = "(k, 1, t) # (if length c = max_entries then butlast c else c)"
    note g = getRateLimit_fresh[OF Cons.prems(1), of t]
    have "results_for k calls ?c1 =
           map (\<lambda>i. expected_result (1 + i)) [0..<length (filter (\<lambda>(t, ip). ip = k) calls)]
       \<and> ((1::nat) \<le> 5 \<longrightarrow> stored_count (snd (check_all calls ?c1)) k =
             Some (min 5 (1 + length (filter (\<lambda>(t, ip). ip = k) calls))))"
      using find_pos_head[of k 1 t]
      by (intro tracked_results[OF _ _ t win room]) simp_all
    then show ?thesis
      using True
      by (simp add: a results_for_Cons check_all_snd_Cons g expected_result_allowed
          map_upt_Suc del: check_all.simps(2) upt_Suc)
  qed
qed

text \<open>
  The entry of \<open>k\<close> survives the calls of other identities as long as these identities
  are fewer than the capacity of the cache: the entries in front of it have distinct keys
  among these identities, so it is not the last entry of a full cache when a new key
  comes in.
\<close>

lemma pos_newer: "pos k c = length (newer k c)"
  by (simp add: pos_def newer_def)

lemma newer_Cons_other: "fst x \<noteq> k \<Longrightarrow> newer k (x # c) = fst x # newer k c"
  by (simp add: newer_def)

lemma newer_head: "newer k ((k, v, s) # c) = []"
  by (simp add: newer_def)

lemma newer_remove_other:
  "k' \<noteq> k \<Longrightarrow> newer k (remove_key k' c) = filter (\<lambda>x. x \<noteq> k') (newer k c)"
  by (induction c) (auto simp: newer_def remove_key_def)

lemma newer_butlast:
  "find (\<lambda>e. fst e = k) c = Some e \<Longrightarrow> Suc (length (newer k c)) < length c \<Longrightarrow>
   newer k (butlast c) = newer k c"
  by (induction c) (auto simp: newer_def split: if_splits)

lemma find_None_newer: "find (\<lambda>e. fst e = k') c = None \<Longrightarrow> k' \<notin> set (newer k c)"
  by (auto simp: newer_def find_None_iff dest: set_takeWhileD)

lemma room_for_one:
  assumes "distinct xs" and "set xs \<subseteq> S" and "k' \<notin> set xs" and "k' \<in> S"
    and "finite S" and "card S < m"
  shows "Suc (length xs) < m"
proof -
  have "set xs \<subseteq> S - {k'}" using assms(2,3) by auto
  then have "card (set xs) \<le> card (S - {k'})" using assms(5) by (intro card_mono) auto
  moreover have "card (S - {k'}) < card S" using assms(4,5) by (intro card_Diff1_less)
  moreover have "card (set xs) = length xs" using assms(1) by (rule distinct_card)
  ultimately show ?thesis using assms(6) by simp
qed

lemma other_call_tracked:
  assumes "k' \<noteq> k" and "k' \<in> S" and "finite S" and "card S < max_entries"
    and "find (\<lambda>e. fst e = k) c = Some e"
    and "distinct (newer k c)" and "set (newer k c) \<subseteq> S"
  shows "find (\<lambda>e. fst e = k) (snd (getRateLimit t k' c)) = Some e
       \<and> distinct (newer k (snd (getRateLimit t k' c)))
       \<and> set (newer k (snd (getRateLimit t k' c))) \<subseteq> S"
proof -
  let ?r = "remove_key k' c"
  have fr: "find (\<lambda>e. fst e = k) ?r = Some e" using assms(1,5) by (simp add: find_remove_other)
  have nr: "newer k ?r = filter (\<lambda>x. x \<noteq> k') (newer k c)"
    using assms(1) by (rule newer_remove_other)
  have dr: "distinct (newer k ?r)" "set (newer k ?r) \<subseteq> S" "k' \<notin> set (newer k ?r)"
    using assms(6,7) by (auto simp: nr)
  have roomr: "Suc (length (newer k ?r)) < max_entries"
    using dr assms(2,3,4) by (intro room_for_one[of _ S k']) auto
  have br: "length ?r = max_entries \<Longrightarrow>
      find (\<lambda>e. fst e = k) (butlast ?r) = Some e \<and> newer k (butlast ?r) = newer k ?r"
    using find_butlast[OF fr] newer_butlast[OF fr] roomr by (simp add: pos_newer)
  have ck: "fst x = k' \<Longrightarrow> find (\<lambda>e. fst e = k) (x # c') = find (\<lambda>e. fst e = k) c'
      \<and> newer k (x # c') = k' # newer k c'" for x c'
    using assms(1) by (auto simp: newer_def)
  show ?thesis
  proof (cases "find (\<lambda>e. fst e = k') c")
    case None
    have nin: "k' \<notin> set (newer k c)" using None by (rule find_None_newer)
    have room: "Suc (length (newer k c)) < max_entries"
      using assms(6,7) nin assms(2,3,4) by (intro room_for_one[of _ S k']) auto
    have bc: "length c = max_entries \<Longrightarrow>
      find (\<lambda>e. fst e = k) (butlast c) = Some e \<and> newer k (butlast c) = newer k c"
      using find_butlast[OF assms(5)] newer_butlast[OF assms(5)] room by (simp add: pos_newer)
    show ?thesis
      unfolding getRateLimit_fresh[OF None]
      using assms(2,5,6,7) nin bc ck[of "(k', 1, t)"] by auto
  next
    case (Some e')
    obtain k'' v s where e': "e' = (k'', v, s)" by (cases e')
    note f = Some[unfolded e']
    consider "t - s > ttl" | "t - s \<le> ttl" "v < 5" | "t - s \<le> ttl" "5 \<le> v" by linarith
    then show ?thesis
    proof cases
      case 1
      show ?thesis
        unfolding getRateLimit_stale[OF f 1]
        using assms(2) fr dr br ck[of "(k', 1, t)"] by auto
    next
      case 2
      show ?thesis
        unfolding getRateLimit_live_allowed[OF f 2]
        using assms(2) fr dr ck[of "(k', Suc v, t)" ?r] by auto
    next
      case 3
      show ?thesis
        unfolding getRateLimit_live_denied[OF f 3]
        using assms(2) fr dr ck[of "(k', v, s)" ?r] by auto
    qed
  qed
qed

lemma tracked_bound:
  assumes "find (\<lambda>e. fst e = k) c = Some (k, v, s)"
    and "distinct (newer k c)" and "set (newer k c) \<subseteq> S" and "lo \<le> s"
    and "\<forall>(t, ip)\<in>set calls. ip = k \<longrightarrow> lo \<le> t \<and> t \<le> lo + ttl"
    and "\<forall>(t, ip)\<in>set calls. ip \<noteq> k \<longrightarrow> ip \<in> S"
    and "finite S" and "card S < max_entries"
  shows "length (filter allowed (results_for k calls c)) \<le> 5 - v"
  using assms(1-6)
proof (induction calls arbitrary: c v s)
  case Nil
  then show ?case by (simp add: results_for_Nil)
next
  case (Cons a calls)
  obtain t ip where a: "a = (t, ip)" by (cases a)
  have win: "\<forall>(t, ip)\<in>set calls. ip = k \<longrightarrow> lo \<le> t \<and> t \<le> lo + ttl"
    and oth: "\<forall>(t, ip)\<in>set calls. ip \<noteq> k \<longrightarrow> ip \<in> S"
    using Cons.prems(5,6) by auto
  show ?case
  proof (cases "ip = k")
    case False
    then have inS: "ip \<in> S" using Cons.prems(6) by (auto simp: a)
    from other_call_tracked[OF False inS assms(7,8) Cons.prems(1,2,3), of t]
    have "length (filter allowed (results_for k calls (snd (getRateLimit t ip c)))) \<le> 5 - v"
      by (intro Cons.IH[OF _ _ _ Cons.prems(4) win oth]) simp_all
    then show ?thesis using False by (simp add: a results_for_Cons)
  next
    case True
    have t: "lo \<le> t" "t - s \<le> ttl" using Cons.prems(4,5) True by (auto simp: a)
    note f = Cons.prems(1)
    show ?thesis
    proof (cases "v < 5")
      case v: True
      note g = getRateLimit_live_allowed[OF f t(2) v]
      have "length (filter allowed (results_for k calls ((k, Suc v, t) # remove_key k c))) \<le> 5 - Suc v"
        by (intro Cons.IH[OF _ _ _ t(1) win oth]) (simp_all add: newer_head)
      then show ?thesis using v True by (simp add: a results_for_Cons g)
    next
      case False
      then have v: "5 \<le> v" by simp
      note g = getRateLimit_live_denied[OF f t(2) v]
      have "length (filter allowed (results_for k calls ((k, v, s) # remove_key k c))) \<le> 5 - v"
        by (intro Cons.IH[OF _ _ _ Cons.prems(4) win oth]) (simp_all add: newer_head)
      then show ?thesis using v True by (simp add: a results_for_Cons g)
    qed
  qed
qed

lemma window_bound_identities:
  assumes "\<forall>(t, ip)\<in>set calls. ip = k \<longrightarrow> lo \<le> t \<and> t \<le> lo + ttl"
    and "\<forall>(t, ip)\<in>set calls. ip \<noteq> k \<longrightarrow> ip \<in> S"
    and "finite S" and "card S < max_entries"
  shows "length (filter allowed (results_for k calls c)) \<le> 5"
  using assms(1,2)
proof (induction calls arbitrary: c)
  case Nil
  then show ?case by (simp add: results_for_Nil)
next
  case (Cons a calls)
  obtain t ip where a: "a = (t, ip)" by (cases a)
  have win: "\<forall>(t, ip)\<in>set calls. ip = k \<longrightarrow> lo \<le> t \<and> t \<le> lo + ttl"
    and oth: "\<forall>(t, ip)\<in>set calls. ip \<noteq> k \<longrightarrow> ip \<in> S"
    using Cons.prems by auto
  show ?case
  proof (cases "ip = k \<and> allowed (fst (getRateLimit t ip c))")
    case False
    then show ?thesis
      using Cons.IH[OF win oth, of "snd (getRateLimit t ip c)"]
      by (auto simp: a results_for_Cons)
  next
    case True
    then obtain v c' where c1: "snd (getRateLimit t k c) = (k, Suc v, t) # c'"
      using getRateLimit_allowed_head[of t k c] by auto
    have t: "lo \<le> t" using Cons.prems(1) True by (auto simp: a)
    have "length (filter allowed (results_for k calls ((k, Suc v, t) # c'))) \<le> 5 - Suc v"
      by (rule tracked_bound[OF _ _ _ t win oth assms(3,4)]) (simp_all add: newer_head)
    then show ?thesis using True c1 by (auto simp: a results_for_Cons)
  qed
qed

text \<open>
  As many new identities as the cache has room for push a lone entry out of it.
\<close>

lemma check_all_snd_append:
  "snd (check_all (xs @ ys) c) = snd (check_all ys (snd (check_all xs c)))"
proof (induction xs arbitrary: c)
  case Nil
  then show ?case by simp
next
  case (Cons a xs)
  obtain t ip where a: "a = (t, ip)" by (cases a)
  show ?case using Cons.IH by (simp add: a check_all_snd_Cons del: check_all.simps(2))
qed

lemma results_for_append:
  "results_for k (xs @ ys) c = results_for k xs c @ results_for k ys (snd (check_all xs c))"
proof (induction xs arbitrary: c)
  case Nil
  then show ?case by (simp add: results_for_Nil)
next
  case (Cons a xs)
  obtain t ip where a: "a = (t, ip)" by (cases a)
  show ?case
    using Cons.IH by (simp add: a results_for_Cons check_all_snd_Cons del: check_all.simps(2))
qed

lemma results_for_others:
  "k \<notin> set ks \<Longrightarrow> results_for k (map (Pair t) ks) c = []"
  by (induction ks arbitrary: c) (auto simp: results_for_Nil results_for_Cons)

lemma find_fresh_entries:
  "find (\<lambda>e. fst e = k) (map (\<lambda>k. (k, Suc 0, t)) ks) = None \<longleftrightarrow> k \<notin> set ks"
  by (induction ks) auto

lemma fill_cache:
  assumes "distinct ks" and "\<forall>k\<in>set ks. find (\<lambda>e. fst e = k) c = None"
    and "length c + length ks \<le> max_entries"
  shows "snd (check_all (map (Pair t) ks) c) = map (\<lambda>k. (k, Suc 0, t)) (rev ks) @ c"
  using assms
proof (induction ks arbitrary: c)
  case Nil
  then show ?case by simp
next
  case (Cons k ks)
  have f: "find (\<lambda>e. fst e = k) c = None" using Cons.prems(2) by simp
  have l: "length c \<noteq> max_entries" using Cons.prems(3) by simp
  have c1: "snd (getRateLimit t k c) = (k, Suc 0, t) # c"
    using l by (simp add: getRateLimit_fresh[OF f])
  have "snd (check_all (map (Pair t) ks) ((k, Suc 0, t) # c))
      = map (\<lambda>k. (k, Suc 0, t)) (rev ks) @ (k, Suc 0, t) # c"
    using Cons.prems by (intro Cons.IH) auto
  then show ?case by (simp add: check_all_snd_Cons c1 del: check_all.simps(2))
qed

lemma flush_cache:
  assumes "distinct ks" and "k \<notin> set ks" and "length ks = max_entries"
  shows "snd (check_all (map (Pair t) ks) [(k, v, s)]) = map (\<lambda>k. (k, Suc 0, t)) (rev ks)"
proof -
  have ne: "ks \<noteq> []" using assms(3) by (auto simp: max_entries_def)
  define xs kl where "xs = butlast ks" and "kl = last ks"
  have ks: "ks = xs @ [kl]" using ne by (simp add: xs_def kl_def)
  have d: "distinct xs" "kl \<notin> set xs" "k \<notin> set xs" "kl \<noteq> k"
    using assms(1,2) by (auto simp: ks)
  have len: "Suc (length xs) = max_entries" using assms(3) by (simp add: ks)
  have c1: "snd (check_all (map (Pair t) xs) [(k, v, s)])
      = map (\<lambda>k. (k, Suc 0, t)) (rev xs) @ [(k, v, s)]"
    using d len by (intro fill_cache) auto
  have f: "find (\<lambda>e. fst e = kl) (map (\<lambda>k. (k, Suc 0, t)) (rev xs) @ [(k, v, s)]) = None"
    using d by (auto simp: find_None_iff)
  have "snd (getRateLimit t kl (map (\<lambda>k. (k, Suc 0, t)) (rev xs) @ [(k, v, s)]))
      = (kl, Suc 0, t) # map (\<lambda>k. (k, Suc 0, t)) (rev xs)"
    using len by (simp add: getRateLimit_fresh[OF f] butlast_append)
  then show ?thesis
    by (simp add: ks check_all_snd_append c1 check_all_snd_Cons del: check_all.simps(2))
qed

text \<open>
  Claim C2. Take an identity that the cache does not hold, and any sequence of calls in
  which the calls of that identity fall within one window (between \<open>lo\<close> and
  \<open>lo + ttl\<close>) and the calls of other identities are fewer than the capacity of the cache.
  Then the calls of the identity get, in order, the results of \<open>expected_result\<close>: allowed
  with remaining 4, 3, 2, 1, 0 for the first five, denied with remaining 0 from the sixth
  on. The stored count is the number of its calls up to 5: a denied call does not increment
  it.
\<close>

theorem rate_limit_first_five:
  assumes "find (\<lambda>e. fst e = ip) c = None"
    and "\<forall>(t, k)\<in>set calls. k = ip \<longrightarrow> lo \<le> t \<and> t \<le> lo + ttl"
    and "length (filter (\<lambda>(t, k). k \<noteq> ip) calls) < max_entries"
  shows "results_for ip calls c =
           map expected_result [0..<length (filter (\<lambda>(t, k). k = ip) calls)]
       \<and> stored_count (snd (check_all calls c)) ip =
           (if filter (\<lambda>(t, k). k = ip) calls = [] then None
            else Some (min REQUESTS_PER_HOUR (length (filter (\<lambda>(t, k). k = ip) calls))))"
  using fresh_results[OF assms] by (simp add: REQUESTS_PER_HOUR_def)

theorem rate_limit_first_five_witness:
  "results_for ''10.0.0.1''
     [(10, ''10.0.0.1''), (20, ''10.0.0.1''), (25, ''10.0.0.2''), (30, ''10.0.0.1''),
      (40, ''10.0.0.1''), (50, ''10.0.0.1''), (60, ''10.0.0.1'')] [] =
     [\<lparr>allowed = True, remaining = 4\<rparr>, \<lparr>allowed = True, remaining = 3\<rparr>,
      \<lparr>allowed = True, remaining = 2\<rparr>, \<lparr>allowed = True, remaining = 1\<rparr>,
      \<lparr>allowed = True, remaining = 0\<rparr>, \<lparr>allowed = False, remaining = 0\<rparr>]
   \<and> stored_count (snd (check_all
     [(10, ''10.0.0.1''), (20, ''10.0.0.1''), (25, ''10.0.0.2''), (30, ''10.0.0.1''),
      (40, ''10.0.0.1''), (50, ''10.0.0.1''), (60, ''10.0.0.1'')] [])) ''10.0.0.1'' = Some 5"
proof -
  have six: "[0..<6] = [0, 1, 2, 3, 4, 5::nat]" by (simp add: upt_rec)
  show ?thesis
    using rate_limit_first_five[of "''10.0.0.1''" "[]"
        "[(10, ''10.0.0.1''), (20, ''10.0.0.1''), (25, ''10.0.0.2''), (30, ''10.0.0.1''),
          (40, ''10.0.0.1''), (50, ''10.0.0.1''), (60, ''10.0.0.1'')]" 10]
    by (simp add: ttl_def max_entries_def six expected_result_def REQUESTS_PER_HOUR_def)
qed

lemma getRateLimit_denied_count:
  assumes "\<not> allowed (fst (getRateLimit t ip c))"
  shows "stored_count (snd (getRateLimit t ip c)) ip = stored_count c ip"
  using assms
  by (auto simp: getRateLimit_def lru_get_def stored_count_def Let_def REQUESTS_PER_HOUR_def
      split: option.splits prod.splits if_splits)

text \<open>
  Claim C8. After any sequence of calls of \<open>getRateLimit\<close> on the initially empty cache,
  at any times and for any identities, the count stored for an identity is at most the
  threshold; and a call that is denied leaves the stored count of its identity as it was.
\<close>

theorem stored_count_bounded:
  "(\<forall>ip n. stored_count (snd (check_all calls [])) ip = Some n \<longrightarrow> n \<le> REQUESTS_PER_HOUR)
   \<and> (\<forall>t ip c. \<not> allowed (fst (getRateLimit t ip c)) \<longrightarrow>
         stored_count (snd (getRateLimit t ip c)) ip = stored_count c ip)"
proof -
  have all: "list_all (\<lambda>e. fst (snd e) \<le> REQUESTS_PER_HOUR) (snd (check_all calls []))"
    by (rule check_all_bounded) simp
  have "n \<le> REQUESTS_PER_HOUR" if h: "stored_count (snd (check_all calls [])) ip = Some n" for ip n
  proof -
    obtain e where "e \<in> set (snd (check_all calls []))" "fst (snd e) = n"
      using h by (auto simp: stored_count_def dest: find_key_in_set)
    then show ?thesis using all by (auto simp: list_all_iff)
  qed
  then show ?thesis using getRateLimit_denied_count by blast
qed

theorem stored_count_bounded_witness:
  "stored_count (snd (check_all [(1, ''a''), (2, ''a''), (3, ''a''), (4, ''a''), (5, ''a''),
      (6, ''a''), (7, ''a'')] [])) ''a'' = Some 5
   \<and> (5::nat) \<le> REQUESTS_PER_HOUR
   \<and> \<not> allowed (fst (getRateLimit 8 ''a'' [(''a'', 5, 5)]))
   \<and> stored_count (snd (getRateLimit 8 ''a'' [(''a'', 5, 5)])) ''a'' = Some 5"
proof -
  have s: "stored_count (snd (check_all [(1, ''a''), (2, ''a''), (3, ''a''), (4, ''a''),
      (5, ''a''), (6, ''a''), (7, ''a'')] [])) ''a'' = Some 5"
    by (simp add: getRateLimit_fresh getRateLimit_head_allowed getRateLimit_head_denied
        stored_count_def ttl_def max_entries_def remove_key_def)
  have d: "\<not> allowed (fst (getRateLimit 8 ''a'' [(''a'', 5, 5)]))"
    by (simp add: getRateLimit_head_denied ttl_def)
  have c: "stored_count [(''a'', 5, 5)] ''a'' = Some 5" by (simp add: stored_count_def)
  show ?thesis
    using s d c
      stored_count_bounded[of "[(1, ''a''), (2, ''a''), (3, ''a''), (4, ''a''), (5, ''a''),
        (6, ''a''), (7, ''a'')]"]
    by simp
qed

section \<open>Scores: proofs\<close>

lemma Math_max_Fin: "Math_max (Fin x) (Fin y) = Fin (max x y)"
  by (simp add: Math_max_def max_def)

lemma Math_min_Fin: "Math_min (Fin x) (Fin y) = Fin (min x y)"
  by (simp add: Math_min_def min_def)

lemma clamp_Fin:
  "clamp (Fin x) (Fin (real_of_int a)) (Fin (real_of_int b)) =
     Fin (real_of_int (min (max \<lfloor>x + 1 / 2\<rfloor> a) b))"
  by (simp add: clamp_def Math_max_Fin Math_min_Fin)

lemma clamp_Fin_0_100:
  "clamp (Fin x) (Fin 0) (Fin 100) = Fin (real_of_int (min (max \<lfloor>x + 1 / 2\<rfloor> 0) 100))"
  using clamp_Fin[of x 0 100] by simp

lemma clamp_Fin_55_100:
  "clamp (Fin x) (Fin 55) (Fin 100) = Fin (real_of_int (min (max \<lfloor>x + 1 / 2\<rfloor> 55) 100))"
  using clamp_Fin[of x 55 100] by simp

lemma int_in_range_Fin:
  "int_in_range lo hi (Fin (real_of_int k)) = (lo \<le> k \<and> k \<le> hi)"
  by (simp add: int_in_range_def)

lemma clamp_Fin_range: "int_in_range 0 100 (clamp (Fin x) (Fin 0) (Fin 100))"
  by (simp add: clamp_Fin_0_100 int_in_range_Fin)

lemma clamp_cases_0_100:
  "clamp n (Fin 0) (Fin 100) = NaN \<and> n = NaN \<or> int_in_range 0 100 (clamp n (Fin 0) (Fin 100))"
proof (cases n)
  case (Fin x)
  then show ?thesis by (simp add: clamp_Fin_range)
qed (simp_all add: clamp_def Math_max_def Math_min_def int_in_range_def)

lemma clamp_cases_55_100:
  "clamp n (Fin 55) (Fin 100) = NaN \<and> n = NaN \<or> int_in_range 55 100 (clamp n (Fin 55) (Fin 100))"
proof (cases n)
  case (Fin x)
  then show ?thesis by (simp add: clamp_Fin_55_100 int_in_range_Fin)
qed (simp_all add: clamp_def Math_max_def Math_min_def int_in_range_def)

lemma scoreFromHits_base:
  "scoreFromHits r hits ramp = clamp (Fin (base_score hits ramp + jitter_of r)) (Fin 0) (Fin 100)"
  by (simp add: scoreFromHits_def base_score_def Let_def)

lemma scoreFromHits_Fin:
  "scoreFromHits r hits ramp =
     Fin (real_of_int (min (max \<lfloor>base_score hits ramp + jitter_of r + 1 / 2\<rfloor> 0) 100))"
  by (simp add: scoreFromHits_base clamp_Fin_0_100)

lemma scoreFromHits_range: "int_in_range 0 100 (scoreFromHits r hits ramp)"
  by (simp add: scoreFromHits_base clamp_Fin_range)

lemma base_score_mono:
  assumes ramp: "1 \<le> ramp" and le: "h1 \<le> h2"
  shows "base_score h1 ramp \<le> base_score h2 ramp"
proof (cases "h1 = 0")
  case True
  show ?thesis
  proof (cases "h2 = 0")
    case True
    with \<open>h1 = 0\<close> show ?thesis by simp
  next
    case False
    then have "1 \<le> real h2" by simp
    then have "1 * 1 \<le> real h2 * ramp" using ramp by (intro mult_mono) simp_all
    then have "0 \<le> ln (real h2 * ramp)" by simp
    then have "(65::int) \<le> \<lfloor>65 + 22 * ln (real h2 * ramp) + 1 / 2\<rfloor>"
      by (simp add: le_floor_iff)
    then show ?thesis using True False by (simp add: base_score_def)
  qed
next
  case False
  then have pos1: "0 < real h1 * ramp" and pos2: "0 < real h2 * ramp"
    using ramp le by auto
  have "real h1 * ramp \<le> real h2 * ramp" using le ramp by (simp add: mult_right_mono)
  then have "ln (real h1 * ramp) \<le> ln (real h2 * ramp)"
    using pos1 pos2 by simp
  then have "\<lfloor>65 + 22 * ln (real h1 * ramp) + 1 / 2\<rfloor> \<le> \<lfloor>65 + 22 * ln (real h2 * ramp) + 1 / 2\<rfloor>"
    by (intro floor_mono) simp
  then have "min 100 (real_of_int \<lfloor>65 + 22 * ln (real h1 * ramp) + 1 / 2\<rfloor>)
      \<le> min 100 (real_of_int \<lfloor>65 + 22 * ln (real h2 * ramp) + 1 / 2\<rfloor>)"
    by (intro min.mono) simp_all
  moreover have "h2 \<noteq> 0" using False le by simp
  ultimately show ?thesis using False unfolding base_score_def by simp
qed

lemma jitter_range:
  assumes "0 \<le> r" and "r < 1"
  shows "\<exists>j. jitter_of r = real_of_int j \<and> -7 \<le> j \<and> j \<le> 6"
proof -
  have "0 \<le> \<lfloor>r * 14\<rfloor>" using assms by simp
  moreover have "\<lfloor>r * 14\<rfloor> < 14" using assms by (simp add: floor_less_iff)
  ultimately show ?thesis
    by (intro exI[of _ "\<lfloor>r * 14\<rfloor> - 7"]) (simp add: jitter_of_def)
qed

lemma zero_hits_band:
  assumes "0 \<le> r" and "r < 1"
  shows "int_in_range 53 66 (scoreFromHits r 0 ramp)"
proof -
  obtain j where j: "jitter_of r = real_of_int j" "-7 \<le> j" "j \<le> 6"
    using jitter_range[OF assms] by blast
  have "\<lfloor>60 + real_of_int j + 1 / 2\<rfloor> = 60 + j" by linarith
  then have "scoreFromHits r 0 ramp = Fin (real_of_int (60 + j))"
    using j by (simp add: scoreFromHits_Fin base_score_def)
  then show ?thesis using j by (simp only: int_in_range_Fin) simp
qed

lemma int_in_range_FinE:
  assumes "int_in_range lo hi n"
  obtains k where "n = Fin (real_of_int k)" "lo \<le> k" "k \<le> hi"
proof (cases n)
  case (Fin x)
  with assms have "x = real_of_int \<lfloor>x\<rfloor>" "lo \<le> \<lfloor>x\<rfloor>" "\<lfloor>x\<rfloor> \<le> hi"
    by (auto simp: int_in_range_def le_floor_iff floor_le_iff)
  with Fin that show ?thesis by blast
qed (use assms in \<open>simp_all add: int_in_range_def\<close>)

lemma keyword_scores_range:
  assumes "keyword_scores rs idea = (ai, buzz, cringe)"
  shows "int_in_range 0 100 ai \<and> int_in_range 0 100 buzz \<and> int_in_range 0 100 cringe"
proof -
  have ai: "ai = scoreFromHits (r_ai rs) (countMatches idea AI_KEYWORDS) (5 / 2)"
    and buzz: "buzz = clamp (scoreFromHits (r_buzz rs) (countMatches idea BUZZWORDS) 2) (Fin 0) (Fin 100)"
    and cringe: "cringe = scoreFromHits (r_cringe rs) (countMatches idea CRINGE_PHRASES) 3"
    using assms by (simp_all add: keyword_scores_def Let_def)
  have "int_in_range 0 100 buzz"
    unfolding buzz scoreFromHits_Fin by (rule clamp_Fin_range)
  then show ?thesis using ai cringe scoreFromHits_range by simp
qed

lemma market_viability_range:
  assumes "int_in_range 0 100 ai" and "int_in_range 0 100 buzz"
  shows "int_in_range 0 100 (market_viability_of r wc ai buzz)"
proof -
  obtain a where a: "ai = Fin (real_of_int a)" using assms(1) by (rule int_in_range_FinE)
  obtain b where b: "buzz = Fin (real_of_int b)" using assms(2) by (rule int_in_range_FinE)
  show ?thesis
    unfolding a b market_viability_of_def Let_def js_sub_def
    by (simp add: clamp_Fin_range)
qed

lemma pivot_range: "int_in_range 0 100 (pivot_of r ai buzz mv)"
  by (simp add: pivot_of_def clamp_Fin_range)

lemma clamp_idem:
  assumes "int_in_range 0 100 n"
  shows "clamp n (Fin 0) (Fin 100) = n"
proof -
  obtain k where k: "n = Fin (real_of_int k)" "0 \<le> k" "k \<le> 100"
    using assms by (rule int_in_range_FinE)
  have "\<lfloor>real_of_int k + 1 / 2\<rfloor> = k" by linarith
  then show ?thesis using k by (simp add: clamp_Fin_0_100)
qed

text \<open>
  The five heuristic metrics of a result are integers in 0..100, whatever the reply.
\<close>

lemma make_result_heuristics:
  "int_in_range 0 100 (ai_hype_beast (make_result rs idea llm))
   \<and> int_in_range 0 100 (buzzword_density (make_result rs idea llm))
   \<and> int_in_range 0 100 (cringe_founder_energy (make_result rs idea llm))
   \<and> int_in_range 0 100 (market_viability (make_result rs idea llm))
   \<and> int_in_range 0 100 (pivot_to_ai_probability (make_result rs idea llm))"
proof -
  obtain ai buzz cringe where ks: "keyword_scores rs idea = (ai, buzz, cringe)"
    by (cases "keyword_scores rs idea")
  obtain yc di rank verdict where llm: "llm = (yc, di, rank, verdict)" by (cases llm)
  have r: "int_in_range 0 100 ai" "int_in_range 0 100 buzz" "int_in_range 0 100 cringe"
    using keyword_scores_range[OF ks] by simp_all
  show ?thesis
    using r market_viability_range[OF r(1) r(2)] pivot_range
    by (simp add: make_result_def ks llm Let_def)
qed

lemma make_result_llm:
  "yc_bait_score (make_result rs idea (yc, di, rank, verdict)) = yc
   \<and> delusion_index (make_result rs idea (yc, di, rank, verdict)) = di
   \<and> founder_rank (make_result rs idea (yc, di, rank, verdict)) = rank
   \<and> goblin_verdict (make_result rs idea (yc, di, rank, verdict)) = verdict"
  by (simp add: make_result_def Let_def split: prod.splits)

lemma make_result_composite:
  "composite_score (make_result rs idea llm) =
     composite_of (ai_hype_beast (make_result rs idea llm))
       (buzzword_density (make_result rs idea llm))
       (cringe_founder_energy (make_result rs idea llm))
       (market_viability (make_result rs idea llm))
       (pivot_to_ai_probability (make_result rs idea llm))
       (yc_bait_score (make_result rs idea llm))
       (delusion_index (make_result rs idea llm))"
  by (simp add: make_result_def Let_def split: prod.splits)

lemma composite_of_Fin:
  "composite_of (Fin a) (Fin b) (Fin c) (Fin d) (Fin e) (Fin f) (Fin g) =
     Fin (real_of_int (spec_composite [a, b, c, d, e, f, g]))"
proof -
  define m where "m = (a + b + c + d + e + f + g) / 7"
  have mean: "sum_list [a, b, c, d, e, f, g] / real (length [a, b, c, d, e, f, g]) = m"
    by (simp add: m_def)
  have twice: "\<lfloor>real_of_int \<lfloor>m + 1 / 2\<rfloor> + 1 / 2\<rfloor> = \<lfloor>m + 1 / 2\<rfloor>"
    by linarith
  have "composite_of (Fin a) (Fin b) (Fin c) (Fin d) (Fin e) (Fin f) (Fin g)
      = clamp (Fin (real_of_int \<lfloor>m + 1 / 2\<rfloor>)) (Fin 0) (Fin 100)"
    by (simp add: composite_of_def m_def)
  also have "\<dots> = Fin (real_of_int (min (max \<lfloor>m + 1 / 2\<rfloor> 0) 100))"
    by (simp only: clamp_Fin_0_100 twice)
  also have "min (max \<lfloor>m + 1 / 2\<rfloor> 0) 100 = spec_composite [a, b, c, d, e, f, g]"
    unfolding spec_composite_def mean round_def by linarith
  finally show ?thesis .
qed

text \<open>
  Claim C9. For each ramp the handler passes to \<open>scoreFromHits\<close> (5/2, 2 and 3), the score
  before the jitter is added (\<open>base_score\<close>, the quantity that \<open>scoreFromHits\<close> adds the
  jitter to and clamps) does not decrease when the hit count grows, the step from no hit to
  one hit included.
\<close>

theorem base_score_monotone:
  assumes "ramp \<in> {5 / 2, 2, 3}" and "h1 \<le> h2"
  shows "(\<forall>r. scoreFromHits r h1 ramp
               = clamp (Fin (base_score h1 ramp + jitter_of r)) (Fin 0) (Fin 100))
       \<and> base_score h1 ramp \<le> base_score h2 ramp"
proof -
  have "1 \<le> ramp" using assms(1) by auto
  then show ?thesis using base_score_mono[OF _ assms(2)] scoreFromHits_base by blast
qed

theorem base_score_monotone_witness:
  "(2::real) \<in> {5 / 2, 2, 3} \<and> (0::nat) \<le> 1 \<and> base_score 0 2 \<le> base_score 1 2"
  using base_score_monotone[of 2 0 1] by simp

section \<open>The handler: proofs\<close>

text \<open>
  What a 200 response says about the run that produced it, and the run that produces one.
\<close>

lemma try_block_score:
  assumes "try_block rt ev idea idea_id user_id = (Reply 200 (ScoreBody s), called, row)"
  shows "\<exists>text j llm. idea = JStr text \<and> llm_reply rt ev = Some j \<and> augment rt j = Some llm
           \<and> s = make_result (rnd ev) text llm"
  using assms
  by (auto simp: try_block_def err500_def Let_def
      split: jsval.splits upstream.splits option.splits if_splits bind_splits)

lemma handler_score:
  assumes "response (handler rt ev req c) = Reply 200 (ScoreBody s)"
  shows "\<exists>text j llm. get_prop (body req) ''idea'' = Some (JStr text) \<and> text \<noteq> []
           \<and> llm_reply rt ev = Some j \<and> augment rt j = Some llm
           \<and> s = make_result (rnd ev) text llm"
  using assms
  by (auto simp: handler_def Let_def split: if_splits prod.splits option.splits
      dest!: try_block_score)

lemma handler_ok:
  assumes "http_method req = ''POST''"
    and "allowed (fst (getRateLimit (now ev) (client_ip req) c))"
    and "get_prop (body req) ''idea'' = Some (JStr text)" and "text \<noteq> []"
    and "get_prop (body req) ''idea_id'' = Some idea_id"
    and "get_prop (body req) ''user_id'' = Some user_id"
    and "llm_reply rt ev = Some j" and "augment rt j = Some llm"
  shows "handler rt ev req c =
     \<lparr>response = Reply 200 (ScoreBody (make_result (rnd ev) text llm)),
      limiter = snd (getRateLimit (now ev) (client_ip req) c),
      llm_called = True,
      inserted = (if truthy idea_id \<and> truthy user_id
                  then Some (idea_id, user_id, make_result (rnd ev) text llm) else None)\<rparr>"
proof -
  from assms(7) obtain d where "upstream ev = OkJson d"
    by (auto simp: llm_reply_def split: upstream.splits option.splits)
  then show ?thesis using assms
    by (cases "getRateLimit (now ev) (client_ip req) c")
      (simp add: handler_def try_block_def Let_def)
qed

lemma try_block_no_reply:
  assumes "llm_reply rt ev = None"
    and "try_block rt ev idea idea_id user_id = (resp, called, row)"
  shows "resp \<noteq> Reply 200 (ScoreBody s)" and "row = None"
    and "called \<Longrightarrow> upstream ev = OkJson d \<Longrightarrow> resp = err500"
  using assms
  by (auto simp: try_block_def err500_def split: jsval.splits upstream.splits if_splits)

lemma try_block_status:
  assumes "try_block rt ev idea idea_id user_id = (Reply st b, called, row)"
  shows "st \<noteq> 405 \<and> st \<noteq> 429"
  using assms
  by (auto simp: try_block_def err500_def Let_def
      split: jsval.splits upstream.splits option.splits if_splits)

lemma handler_limiter:
  "limiter (handler rt ev req c) =
     (if http_method req = ''POST'' then snd (getRateLimit (now ev) (client_ip req) c) else c)"
  by (auto simp: handler_def Let_def split: prod.splits option.splits)

lemma handler_passed:
  "passed_limiter (handler rt ev req c) =
     (http_method req = ''POST'' \<and> allowed (fst (getRateLimit (now ev) (client_ip req) c)))"
proof (cases "http_method req = ''POST''")
  case False
  then show ?thesis by (simp add: handler_def passed_limiter_def)
next
  case True
  obtain rl c1 where g: "getRateLimit (now ev) (client_ip req) c = (rl, c1)"
    by (cases "getRateLimit (now ev) (client_ip req) c")
  show ?thesis
  proof (cases "allowed rl")
    case False
    then show ?thesis using True g by (simp add: handler_def passed_limiter_def)
  next
    case a: True
    have "passed_limiter (handler rt ev req c)"
      using True g a
      by (auto simp: handler_def passed_limiter_def Let_def
          split: prod.splits option.splits response.splits dest: try_block_status)
    then show ?thesis using True g a by simp
  qed
qed

lemma handler_missing:
  assumes "http_method req = ''POST''"
    and "get_prop (body req) ''idea'' = Some idea" and "\<not> truthy idea"
  shows "handler rt ev req c =
     \<lparr>response =
        (if allowed (fst (getRateLimit (now ev) (client_ip req) c))
         then Reply 400 (ErrorBody ''Missing idea'')
         else Reply 429 (ErrorBody ''The Oracle needs rest. Try again later.'')),
      limiter = snd (getRateLimit (now ev) (client_ip req) c),
      llm_called = False, inserted = None\<rparr>"
proof -
  have props: "get_prop (body req) ''idea_id'' \<noteq> None" "get_prop (body req) ''user_id'' \<noteq> None"
    using assms(2) by (cases "body req"; simp)+
  show ?thesis
    using assms props
    by (cases "getRateLimit (now ev) (client_ip req) c") (auto simp: handler_def)
qed

lemma outcomes_for_Nil: "outcomes_for k rt [] c = []"
  by (simp add: outcomes_for_def)

lemma outcomes_for_Cons:
  "outcomes_for k rt ((ev, req) # rest) c =
     (if client_ip req = k then [handler rt ev req c] else [])
       @ outcomes_for k rt rest (limiter (handler rt ev req c))"
  by (simp add: outcomes_for_def Let_def)

lemma outcomes_results:
  "length (filter passed_limiter (outcomes_for k rt reqs c)) =
     length (filter allowed (results_for k
       (map (\<lambda>(ev, req). (now ev, client_ip req))
            (filter (\<lambda>(ev, req). http_method req = ''POST'') reqs)) c))"
proof (induction reqs arbitrary: c)
  case Nil
  then show ?case by (simp add: outcomes_for_Nil results_for_Nil)
next
  case (Cons a reqs)
  obtain ev req where a: "a = (ev, req)" by (cases a)
  show ?case
  proof (cases "http_method req = ''POST''")
    case True
    then show ?thesis
      using Cons.IH[of "snd (getRateLimit (now ev) (client_ip req) c)"]
      by (simp add: a outcomes_for_Cons results_for_Cons handler_passed handler_limiter)
  next
    case False
    then show ?thesis
      using Cons.IH[of c]
      by (simp add: a outcomes_for_Cons handler_passed handler_limiter)
  qed
qed

lemma augment_clamped:
  assumes "augment rt j = Some (yc, di, rank, verdict)"
  shows "\<exists>y d. yc = clamp y (Fin 0) (Fin 100) \<and> di = clamp d (Fin 55) (Fin 100)"
  using assms by (auto simp: augment_def split: bind_splits)

text \<open>
  The metrics of a returned score: the five heuristic ones are integers in 0..100; the two
  read from the reply are in their ranges unless the converted field is NaN, which \<open>clamp\<close>
  lets through (\<open>Math_max\<close> and \<open>Math_min\<close> of NaN are NaN).
\<close>

lemma handler_metrics:
  assumes "response (handler rt ev req c) = Reply 200 (ScoreBody s)"
  shows "int_in_range 0 100 (ai_hype_beast s) \<and> int_in_range 0 100 (buzzword_density s)
       \<and> int_in_range 0 100 (cringe_founder_energy s) \<and> int_in_range 0 100 (market_viability s)
       \<and> int_in_range 0 100 (pivot_to_ai_probability s)
       \<and> (yc_bait_score s = NaN \<or> int_in_range 0 100 (yc_bait_score s))
       \<and> (delusion_index s = NaN \<or> int_in_range 55 100 (delusion_index s))"
proof -
  from handler_score[OF assms] obtain idea j llm where
    a: "augment rt j = Some llm" and s: "s = make_result (rnd ev) idea llm" by blast
  obtain yc di rank verdict where llm: "llm = (yc, di, rank, verdict)" by (cases llm)
  from augment_clamped[OF a[unfolded llm]] obtain y d where
    yd: "yc = clamp y (Fin 0) (Fin 100)" "di = clamp d (Fin 55) (Fin 100)" by blast
  have "yc = NaN \<or> int_in_range 0 100 yc" using clamp_cases_0_100[of y] yd by auto
  moreover have "di = NaN \<or> int_in_range 55 100 di" using clamp_cases_55_100[of d] yd by auto
  ultimately show ?thesis
    using make_result_heuristics[of "rnd ev" idea llm]
      make_result_llm[of "rnd ev" idea yc di rank verdict]
    unfolding s llm by simp
qed

subsection \<open>The example inputs\<close>

lemma kw_dog_food:
  "countMatches ''dog food'' AI_KEYWORDS = 0"
  "countMatches ''dog food'' BUZZWORDS = 0"
  "countMatches ''dog food'' CRINGE_PHRASES = 0"
  by code_simp+

lemma wc_dog_food: "length (split_ws (js_trim ''dog food'')) = 2"
  by code_simp

lemma zero_draws_sel:
  "r_ai zero_draws = 0" "r_buzz zero_draws = 0" "r_cringe zero_draws = 0"
  "r_market zero_draws = 0" "r_pivot zero_draws = 0"
  by (simp_all add: zero_draws_def)

lemma keyword_scores_dog_food:
  "keyword_scores zero_draws ''dog food'' = (Fin 53, Fin 53, Fin 53)"
  by (simp add: keyword_scores_def kw_dog_food zero_draws_sel scoreFromHits_Fin base_score_def
      jitter_of_def clamp_Fin_0_100)

lemma market_dog_food: "market_viability_of 0 2 (Fin 53) (Fin 53) = Fin 42"
proof -
  have "\<lfloor>(53 + 53) / 14 + 1 / (2::real)\<rfloor> = 8" by (simp add: floor_eq_iff)
  moreover have "\<lfloor>55 + min (2 / (12 / 10)) 30 - 8 + (- 7) + 1 / (2::real)\<rfloor> = 42"
    by (simp add: floor_eq_iff)
  ultimately show ?thesis
    using clamp_Fin_0_100[of "55 + min (2 / (12 / 10)) 30 - 8 + (- 7)"]
    by (simp add: market_viability_of_def Let_def js_sub_def jitter_of_def)
qed

lemma pivot_dog_food: "pivot_of 0 (Fin 53) (Fin 53) (Fin 42) = Fin 82"
  by (simp add: pivot_of_def js_ge_def clamp_Fin_0_100)

lemma make_result_dog_food:
  "make_result zero_draws ''dog food'' (yc, di, rank, verdict) =
     \<lparr>ai_hype_beast = Fin 53, buzzword_density = Fin 53, cringe_founder_energy = Fin 53,
      market_viability = Fin 42, pivot_to_ai_probability = Fin 82, yc_bait_score = yc,
      delusion_index = di, founder_rank = rank, goblin_verdict = verdict,
      composite_score = composite_of (Fin 53) (Fin 53) (Fin 53) (Fin 42) (Fin 82) yc di\<rparr>"
  by (simp add: make_result_def wc_dog_food keyword_scores_dog_food market_dog_food
      pivot_dog_food zero_draws_sel Let_def)

lemma sample_env_sel:
  "now (sample_env t content) = t" "rnd (sample_env t content) = zero_draws"
  "upstream (sample_env t content) = OkJson (Some (envelope content))"
  by (simp_all add: sample_env_def)

lemma extract_envelope: "extract_content (envelope content) = Some content"
  by (simp add: extract_content_def envelope_def)

lemma llm_reply_sample:
  "llm_reply rt (sample_env t content) = parse_reply rt content"
  by (simp add: llm_reply_def sample_env_sel extract_envelope)

lemma post_from_sel:
  "http_method (post_from addr b) = ''POST''" "body (post_from addr b) = b"
  "x_forwarded_for (post_from addr b) = Some addr"
  by (simp_all add: post_from_def)

lemma client_ip_sample: "client_ip (post_from ''203.0.113.7'' b) = ''203.0.113.7''"
  by (simp add: client_ip_def post_from_def js_trim_def is_ws_def)

lemma parse_reply_samples:
  \<open>parse_reply sample_runtime ''{}'' = Some (JObj [])\<close>
  \<open>parse_reply sample_runtime ''not json'' = None\<close>
  \<open>parse_reply sample_runtime
     ''{"yc_bait_score": 80, "delusion_index": 90, "founder_rank": "Chad", "goblin_verdict": "ok"}''
   = Some (JObj [(''yc_bait_score'', JNum (Fin 80)), (''delusion_index'', JNum (Fin 90)),
             (''founder_rank'', JStr ''Chad''), (''goblin_verdict'', JStr ''ok'')])\<close>
  \<open>parse_reply sample_runtime
     ''{"yc_bait_score": 80, "delusion_index": 90, "founder_rank": "Sigma", "goblin_verdict": "ok"}''
   = Some (JObj [(''yc_bait_score'', JNum (Fin 80)), (''delusion_index'', JNum (Fin 90)),
             (''founder_rank'', JStr ''Sigma''), (''goblin_verdict'', JStr ''ok'')])\<close>
  \<open>parse_reply sample_runtime
     ''{"delusion_index": 90, "founder_rank": "Chad", "goblin_verdict": "ok"}''
   = Some (JObj [(''delusion_index'', JNum (Fin 90)),
             (''founder_rank'', JStr ''Chad''), (''goblin_verdict'', JStr ''ok'')])\<close>
  by (simp_all add: parse_reply_def sample_runtime_def sample_parse_def js_trim_def is_ws_def)

lemma augment_samples:
  "augment sample_runtime (JObj []) = Some (NaN, NaN, Undefined, Undefined)"
  "augment sample_runtime
     (JObj [(''yc_bait_score'', JNum (Fin 80)), (''delusion_index'', JNum (Fin 90)),
            (''founder_rank'', JStr r), (''goblin_verdict'', JStr ''ok'')])
   = Some (Fin 80, Fin 90, JStr r, JStr ''ok'')"
  "augment sample_runtime
     (JObj [(''delusion_index'', JNum (Fin 90)),
            (''founder_rank'', JStr ''Chad''), (''goblin_verdict'', JStr ''ok'')])
   = Some (NaN, Fin 90, JStr ''Chad'', JStr ''ok'')"
  by (simp_all add: augment_def ToNumber_def clamp_Fin_0_100 clamp_Fin_55_100 clamp_def
      Math_max_def Math_min_def)

lemma composite_samples:
  "composite_of (Fin 53) (Fin 53) (Fin 53) (Fin 42) (Fin 82) (Fin 80) (Fin 90) = Fin 65"
  "composite_of (Fin 53) (Fin 53) (Fin 53) (Fin 42) (Fin 82) NaN di = NaN"
  by (simp_all add: composite_of_def clamp_Fin_0_100 clamp_def Math_max_def Math_min_def)

lemma handler_sample_ok:
  assumes "parse_reply sample_runtime content = Some j" and "augment sample_runtime j = Some llm"
  shows "handler sample_runtime (sample_env t content)
           (post_from ''203.0.113.7'' (JObj [(''idea'', JStr ''dog food'')])) [] =
     \<lparr>response = Reply 200 (ScoreBody (make_result zero_draws ''dog food'' llm)),
      limiter = [(''203.0.113.7'', 1, t)], llm_called = True, inserted = None\<rparr>"
  using handler_ok[of "post_from ''203.0.113.7'' (JObj [(''idea'', JStr ''dog food'')])"
      "sample_env t content" "[]" "''dog food''" Undefined Undefined sample_runtime j llm] assms
  by (simp add: post_from_sel client_ip_sample sample_env_sel getRateLimit_empty llm_reply_sample)

lemma handler_sample_no_reply:
  assumes "parse_reply sample_runtime content = None"
  shows "handler sample_runtime (sample_env t content)
           (post_from ''203.0.113.7'' (JObj [(''idea'', JStr ''dog food'')])) [] =
     \<lparr>response = Reply 500 (ErrorBody ''Internal server error''),
      limiter = [(''203.0.113.7'', 1, t)], llm_called = True, inserted = None\<rparr>"
  using assms
  by (simp add: handler_def try_block_def post_from_sel client_ip_sample sample_env_sel
      getRateLimit_empty llm_reply_sample err500_def)

lemma anonymous_post_sel:
  "http_method (anonymous_post b) = ''POST''" "body (anonymous_post b) = b"
  "x_forwarded_for (anonymous_post b) = None" "remoteAddress (anonymous_post b) = None"
  "client_ip (anonymous_post b) = ''unknown''"
  by (simp_all add: anonymous_post_def client_ip_def)

lemma crowd_names:
  "distinct (map crowd_name [0..<n])" "''unknown'' \<notin> set (map crowd_name [0..<n])"
proof -
  have "inj crowd_name"
  proof (rule injI)
    fix a b assume "crowd_name a = crowd_name b"
    then have "length (crowd_name a) = length (crowd_name b)" by simp
    then show "a = b" by (simp add: crowd_name_def)
  qed
  then show "distinct (map crowd_name [0..<n])"
    by (simp add: distinct_map inj_on_def inj_def)
  show "''unknown'' \<notin> set (map crowd_name [0..<n])"
    by (auto simp: crowd_name_def)
qed

lemma client_ip_crowd: "client_ip (post_from (crowd_name n) b) = crowd_name n"
  by (simp add: client_ip_def post_from_def js_trim_def is_ws_def crowd_name_def
      takeWhile_replicate dropWhile_replicate del: replicate_Suc)

lemma flood_calls:
  "map (\<lambda>(ev, req). (now ev, client_ip req))
     (filter (\<lambda>(ev, req). http_method req = ''POST'') flood_requests)
   = map (\<lambda>t. (t, ''unknown'')) [10, 20, 30, 40, 50]
     @ map (Pair 60) (map crowd_name [0..<max_entries]) @ [(70, ''unknown'')]"
  by (simp add: flood_requests_def filter_map comp_def sample_env_sel anonymous_post_sel
      post_from_sel client_ip_crowd)

lemma five_calls:
  "check_all (map (\<lambda>t. (t, ''unknown'')) [10, 20, 30, 40, 50]) [] =
     ([\<lparr>allowed = True, remaining = 4\<rparr>, \<lparr>allowed = True, remaining = 3\<rparr>,
       \<lparr>allowed = True, remaining = 2\<rparr>, \<lparr>allowed = True, remaining = 1\<rparr>,
       \<lparr>allowed = True, remaining = 0\<rparr>], [(''unknown'', 5, 50)])"
  by (simp add: getRateLimit_def lru_get_def lru_set_def remove_key_def ttl_def max_entries_def
      REQUESTS_PER_HOUR_def)

lemma flood_results:
  "results_for ''unknown''
     (map (\<lambda>t. (t, ''unknown'')) [10, 20, 30, 40, 50]
      @ map (Pair 60) (map crowd_name [0..<max_entries]) @ [(70, ''unknown'')]) [] =
   [\<lparr>allowed = True, remaining = 4\<rparr>, \<lparr>allowed = True, remaining = 3\<rparr>,
    \<lparr>allowed = True, remaining = 2\<rparr>, \<lparr>allowed = True, remaining = 1\<rparr>,
    \<lparr>allowed = True, remaining = 0\<rparr>, \<lparr>allowed = True, remaining = 4\<rparr>]"
proof -
  let ?A = "map (\<lambda>t. (t, ''unknown'')) [10, 20, 30, 40, 50]"
  let ?ks = "map crowd_name [0..<max_entries]"
  have a: "results_for ''unknown'' ?A [] =
     [\<lparr>allowed = True, remaining = 4\<rparr>, \<lparr>allowed = True, remaining = 3\<rparr>,
      \<lparr>allowed = True, remaining = 2\<rparr>, \<lparr>allowed = True, remaining = 1\<rparr>,
      \<lparr>allowed = True, remaining = 0\<rparr>]"
    unfolding results_for_def five_calls by simp
  have ca: "snd (check_all ?A []) = [(''unknown'', 5, 50)]"
    unfolding five_calls by simp
  have b: "results_for ''unknown'' (map (Pair 60) ?ks) [(''unknown'', 5, 50)] = []"
    by (rule results_for_others) (rule crowd_names)
  have cb: "snd (check_all (map (Pair 60) ?ks) [(''unknown'', 5, 50)])
      = map (\<lambda>k. (k, Suc 0, 60)) (rev ?ks)"
    by (rule flush_cache[OF crowd_names(1) crowd_names(2)]) simp
  have f: "find (\<lambda>e. fst e = ''unknown'') (map (\<lambda>k. (k, Suc 0, 60)) (rev ?ks)) = None"
    by (simp only: find_fresh_entries set_rev) (rule crowd_names(2))
  have c: "results_for ''unknown'' [(70, ''unknown'')] (map (\<lambda>k. (k, Suc 0, 60)) (rev ?ks))
      = [\<lparr>allowed = True, remaining = 4\<rparr>]"
    by (simp add: results_for_Cons results_for_Nil getRateLimit_fresh[OF f])
  show ?thesis
    unfolding results_for_append check_all_snd_append a ca b cb c by simp
qed

lemma get_prop_total:
  "get_prop j k = Some y \<Longrightarrow> \<exists>v. get_prop j k' = Some v"
  by (cases j) simp_all

subsection \<open>The claims about the handler\<close>

text \<open>
  Claim C1 (every metric of a returned score is an integer in its range) against the code:
  the reply of the service has no yc_bait_score. The handler answers 200; yc_bait_score is
  NaN, since \<open>clamp\<close> of the undefined field is NaN, and so is composite_score.
\<close>

theorem missing_score_gives_NaN:
  \<open>handler sample_runtime
     (sample_env 1000 ''{"delusion_index": 90, "founder_rank": "Chad", "goblin_verdict": "ok"}'')
     (post_from ''203.0.113.7'' (JObj [(''idea'', JStr ''dog food'')])) [] =
   \<lparr>response = Reply 200 (ScoreBody
      \<lparr>ai_hype_beast = Fin 53, buzzword_density = Fin 53, cringe_founder_energy = Fin 53,
       market_viability = Fin 42, pivot_to_ai_probability = Fin 82, yc_bait_score = NaN,
       delusion_index = Fin 90, founder_rank = JStr ''Chad'', goblin_verdict = JStr ''ok'',
       composite_score = NaN\<rparr>),
    limiter = [(''203.0.113.7'', 1, 1000)], llm_called = True, inserted = None\<rparr>\<close>
  by (simp add: handler_sample_ok[OF parse_reply_samples(5) augment_samples(3)]
      make_result_dog_food composite_samples)

text \<open>
  Claim C3 (a request without idea is rejected before the rate-limit check and leaves the
  count unchanged) against the code: the limiter runs first. A POST without idea from a new
  caller is answered 400 with the caller's count stored as 1, and the same POST from a
  caller at the threshold is answered 429, not 400.
\<close>

theorem missing_idea_counts_against_limit:
  "handler sample_runtime (sample_env 1000 ''{}'') (post_from ''203.0.113.7'' (JObj [])) [] =
     \<lparr>response = Reply 400 (ErrorBody ''Missing idea''),
      limiter = [(''203.0.113.7'', 1, 1000)], llm_called = False, inserted = None\<rparr>
   \<and> stored_count [] ''203.0.113.7'' = None
   \<and> stored_count [(''203.0.113.7'', 1, 1000)] ''203.0.113.7'' = Some 1
   \<and> handler sample_runtime (sample_env 1000 ''{}'') (post_from ''203.0.113.7'' (JObj []))
        [(''203.0.113.7'', 5, 500)] =
     \<lparr>response = Reply 429 (ErrorBody ''The Oracle needs rest. Try again later.''),
      limiter = [(''203.0.113.7'', 5, 500)], llm_called = False, inserted = None\<rparr>"
  by (simp add: handler_def post_from_sel client_ip_sample sample_env_sel getRateLimit_empty
      getRateLimit_head_denied stored_count_def remove_key_def ttl_def)

text \<open>
  Claim C3, amended. A POST whose idea is missing or falsy goes through the rate-limit check
  first. When the check denies, the response is 429. When it allows, the response is 400
  (Missing idea) and the stored count of the caller is one more than its live count before.
  Either way the service is not called and nothing is inserted.
\<close>

theorem missing_idea_after_rate_limit:
  assumes "http_method req = ''POST''"
    and "get_prop (body req) ''idea'' = Some idea" and "\<not> truthy idea"
  shows "limiter (handler rt ev req c) = snd (getRateLimit (now ev) (client_ip req) c)
       \<and> llm_called (handler rt ev req c) = False
       \<and> inserted (handler rt ev req c) = None
       \<and> (if allowed (fst (getRateLimit (now ev) (client_ip req) c))
          then response (handler rt ev req c) = Reply 400 (ErrorBody ''Missing idea'')
             \<and> stored_count (limiter (handler rt ev req c)) (client_ip req) =
                 Some (Suc (case fst (lru_get (now ev) (client_ip req) c) of
                              None \<Rightarrow> 0 | Some v \<Rightarrow> v))
          else response (handler rt ev req c) =
                 Reply 429 (ErrorBody ''The Oracle needs rest. Try again later.''))"
proof -
  obtain rl c1 where g: "getRateLimit (now ev) (client_ip req) c = (rl, c1)"
    by (cases "getRateLimit (now ev) (client_ip req) c")
  have props: "get_prop (body req) ''idea_id'' \<noteq> None" "get_prop (body req) ''user_id'' \<noteq> None"
    using assms(2) by (cases "body req"; simp)+
  show ?thesis
  proof (cases "allowed rl")
    case True
    then have "allowed (fst (getRateLimit (now ev) (client_ip req) c))" using g by simp
    from getRateLimit_allowed_count[OF this] show ?thesis
      using assms g True props by (auto simp: handler_def)
  next
    case False
    then show ?thesis using assms g by (simp add: handler_def)
  qed
qed

theorem missing_idea_after_rate_limit_witness:
  "http_method (post_from ''203.0.113.7'' (JObj [])) = ''POST''
   \<and> get_prop (body (post_from ''203.0.113.7'' (JObj []))) ''idea'' = Some Undefined
   \<and> \<not> truthy Undefined
   \<and> response (handler sample_runtime (sample_env 1000 ''{}'') (post_from ''203.0.113.7'' (JObj [])) [])
       = Reply 400 (ErrorBody ''Missing idea'')
   \<and> stored_count
        (limiter (handler sample_runtime (sample_env 1000 ''{}'') (post_from ''203.0.113.7'' (JObj [])) []))
        ''203.0.113.7'' = Some 1"
  using missing_idea_after_rate_limit[of "post_from ''203.0.113.7'' (JObj [])" Undefined
      sample_runtime "sample_env 1000 ''{}''" "[]"]
  by (simp add: post_from_sel client_ip_sample sample_env_sel getRateLimit_empty lru_get_def
      stored_count_def)

text \<open>
  Claim C4 (a founder_rank outside the four labels is a ParseError) against the code: the
  reply carries the rank Sigma, and the handler answers 200 with founder_rank Sigma.
\<close>

theorem unrecognized_rank_accepted:
  \<open>handler sample_runtime
     (sample_env 1000 ''{"yc_bait_score": 80, "delusion_index": 90, "founder_rank": "Sigma", "goblin_verdict": "ok"}'')
     (post_from ''203.0.113.7'' (JObj [(''idea'', JStr ''dog food'')])) [] =
   \<lparr>response = Reply 200 (ScoreBody
      \<lparr>ai_hype_beast = Fin 53, buzzword_density = Fin 53, cringe_founder_energy = Fin 53,
       market_viability = Fin 42, pivot_to_ai_probability = Fin 82, yc_bait_score = Fin 80,
       delusion_index = Fin 90, founder_rank = JStr ''Sigma'', goblin_verdict = JStr ''ok'',
       composite_score = Fin 65\<rparr>),
    limiter = [(''203.0.113.7'', 1, 1000)], llm_called = True, inserted = None\<rparr>\<close>
  by (simp add: handler_sample_ok[OF parse_reply_samples(4) augment_samples(2)]
      make_result_dog_food composite_samples)

text \<open>
  Claim C4, amended. The founder_rank of a returned score is the founder_rank field of the
  parsed reply, as it is; and the handler makes no check against the four labels: a POST
  that the rate limiter allows, with a non-empty idea, and whose parsed reply has fields
  yc_bait_score and delusion_index that convert to numbers, is answered 200 with the
  founder_rank \<open>v\<close> of the reply, whatever the value \<open>v\<close> is.
\<close>

theorem founder_rank_copied:
  "(response (handler rt ev req c) = Reply 200 (ScoreBody s) \<longrightarrow>
      (\<exists>j. llm_reply rt ev = Some j \<and> get_prop j ''founder_rank'' = Some (founder_rank s)))
   \<and> (http_method req = ''POST'' \<and> allowed (fst (getRateLimit (now ev) (client_ip req) c))
      \<and> get_prop (body req) ''idea'' = Some (JStr idea) \<and> idea \<noteq> []
      \<and> llm_reply rt ev = Some j
      \<and> get_prop j ''yc_bait_score'' = Some y \<and> ToNumber rt y = Some yn
      \<and> get_prop j ''delusion_index'' = Some d \<and> ToNumber rt d = Some dn
      \<and> get_prop j ''founder_rank'' = Some v \<longrightarrow>
      (\<exists>s'. response (handler rt ev req c) = Reply 200 (ScoreBody s') \<and> founder_rank s' = v))"
proof (intro conjI impI)
  assume r: "response (handler rt ev req c) = Reply 200 (ScoreBody s)"
  from handler_score[OF r] obtain idea' j' llm where
    j: "llm_reply rt ev = Some j'" and a: "augment rt j' = Some llm"
    and s: "s = make_result (rnd ev) idea' llm" by blast
  obtain yc di rank verdict where llm: "llm = (yc, di, rank, verdict)" by (cases llm)
  have "get_prop j' ''founder_rank'' = Some rank"
    using a unfolding llm by (auto simp: augment_def split: bind_splits)
  then show "\<exists>j. llm_reply rt ev = Some j \<and> get_prop j ''founder_rank'' = Some (founder_rank s)"
    using j s llm make_result_llm[of "rnd ev" idea' yc di rank verdict] by simp
next
  assume h: "http_method req = ''POST'' \<and> allowed (fst (getRateLimit (now ev) (client_ip req) c))
      \<and> get_prop (body req) ''idea'' = Some (JStr idea) \<and> idea \<noteq> []
      \<and> llm_reply rt ev = Some j
      \<and> get_prop j ''yc_bait_score'' = Some y \<and> ToNumber rt y = Some yn
      \<and> get_prop j ''delusion_index'' = Some d \<and> ToNumber rt d = Some dn
      \<and> get_prop j ''founder_rank'' = Some v"
  obtain idea_id user_id verdict where
    p: "get_prop (body req) ''idea_id'' = Some idea_id"
       "get_prop (body req) ''user_id'' = Some user_id"
       "get_prop j ''goblin_verdict'' = Some verdict"
    using h get_prop_total[of "body req" "''idea''" "JStr idea"]
      get_prop_total[of j "''founder_rank''" v] by blast
  have a: "augment rt j =
      Some (clamp yn (Fin 0) (Fin 100), clamp dn (Fin 55) (Fin 100), v, verdict)"
    using h p by (simp add: augment_def)
  have "handler rt ev req c =
     \<lparr>response = Reply 200 (ScoreBody (make_result (rnd ev) idea
         (clamp yn (Fin 0) (Fin 100), clamp dn (Fin 55) (Fin 100), v, verdict))),
      limiter = snd (getRateLimit (now ev) (client_ip req) c),
      llm_called = True,
      inserted = (if truthy idea_id \<and> truthy user_id
                  then Some (idea_id, user_id, make_result (rnd ev) idea
         (clamp yn (Fin 0) (Fin 100), clamp dn (Fin 55) (Fin 100), v, verdict)) else None)\<rparr>"
    using h p a by (intro handler_ok) simp_all
  then show "\<exists>s'. response (handler rt ev req c) = Reply 200 (ScoreBody s') \<and> founder_rank s' = v"
    by (simp add: make_result_llm)
qed

theorem founder_rank_copied_witness:
  \<open>(\<exists>j. llm_reply sample_runtime
     (sample_env 1000 ''{"yc_bait_score": 80, "delusion_index": 90, "founder_rank": "Sigma", "goblin_verdict": "ok"}'')
       = Some j \<and> get_prop j ''founder_rank'' = Some (JStr ''Sigma''))
   \<and> (\<exists>s'. response (handler sample_runtime
     (sample_env 1000 ''{"yc_bait_score": 80, "delusion_index": 90, "founder_rank": "Sigma", "goblin_verdict": "ok"}'')
     (post_from ''203.0.113.7'' (JObj [(''idea'', JStr ''dog food'')])) []) = Reply 200 (ScoreBody s')
       \<and> founder_rank s' = JStr ''Sigma'')\<close>
  using founder_rank_copied[of sample_runtime
      \<open>sample_env 1000 ''{"yc_bait_score": 80, "delusion_index": 90, "founder_rank": "Sigma", "goblin_verdict": "ok"}''\<close>
      "post_from ''203.0.113.7'' (JObj [(''idea'', JStr ''dog food'')])" "[]"
      "make_result zero_draws ''dog food'' (Fin 80, Fin 90, JStr ''Sigma'', JStr ''ok'')"
      "''dog food''"
      "JObj [(''yc_bait_score'', JNum (Fin 80)), (''delusion_index'', JNum (Fin 90)),
             (''founder_rank'', JStr ''Sigma''), (''goblin_verdict'', JStr ''ok'')]"
      "JNum (Fin 80)" "Fin 80" "JNum (Fin 90)" "Fin 90" "JStr ''Sigma''"]
  by (simp add: handler_sample_ok[OF parse_reply_samples(4) augment_samples(2)]
      make_result_llm post_from_sel client_ip_sample sample_env_sel getRateLimit_empty
      llm_reply_sample parse_reply_samples ToNumber_def)

text \<open>
  Claim C5 (a reply that misses a required field is a ParseError and gives no score)
  against the code: the reply is the empty object, and the handler answers 200 with a
  score whose yc_bait_score, delusion_index and composite_score are NaN and whose
  founder_rank and goblin_verdict are undefined.
\<close>

theorem empty_object_reply_accepted:
  \<open>handler sample_runtime (sample_env 1000 ''{}'')
     (post_from ''203.0.113.7'' (JObj [(''idea'', JStr ''dog food'')])) [] =
   \<lparr>response = Reply 200 (ScoreBody
      \<lparr>ai_hype_beast = Fin 53, buzzword_density = Fin 53, cringe_founder_energy = Fin 53,
       market_viability = Fin 42, pivot_to_ai_probability = Fin 82, yc_bait_score = NaN,
       delusion_index = NaN, founder_rank = Undefined, goblin_verdict = Undefined,
       composite_score = NaN\<rparr>),
    limiter = [(''203.0.113.7'', 1, 1000)], llm_called = True, inserted = None\<rparr>\<close>
  by (simp add: handler_sample_ok[OF parse_reply_samples(1) augment_samples(1)]
      make_result_dog_food composite_samples)

text \<open>
  Claim C5, amended. When the reply of the service is not well-formed (reading the body
  as JSON fails, the body has no string at choices[0].message.content, or \<open>JSON_parse\<close>
  rejects the content after the fences are stripped), no request returns a score and
  nothing is inserted; a request that got as far as calling the service is answered 500
  (Internal server error).
\<close>

theorem malformed_reply_fails:
  assumes "upstream ev = OkJson d" and "llm_reply rt ev = None"
  shows "(\<forall>s. response (handler rt ev req c) \<noteq> Reply 200 (ScoreBody s))
       \<and> inserted (handler rt ev req c) = None
       \<and> (llm_called (handler rt ev req c) \<longrightarrow>
            response (handler rt ev req c) = Reply 500 (ErrorBody ''Internal server error''))"
  using assms(1)
  by (auto simp: handler_def Let_def err500_def split: prod.splits option.splits
      dest: try_block_no_reply[OF assms(2)])

theorem malformed_reply_fails_witness:
  "upstream (sample_env 1000 ''not json'') = OkJson (Some (envelope ''not json''))
   \<and> llm_reply sample_runtime (sample_env 1000 ''not json'') = None
   \<and> handler sample_runtime (sample_env 1000 ''not json'')
         (post_from ''203.0.113.7'' (JObj [(''idea'', JStr ''dog food'')])) [] =
       \<lparr>response = Reply 500 (ErrorBody ''Internal server error''),
        limiter = [(''203.0.113.7'', 1, 1000)], llm_called = True, inserted = None\<rparr>"
  using malformed_reply_fails[of "sample_env 1000 ''not json''" "Some (envelope ''not json'')"
      sample_runtime "post_from ''203.0.113.7'' (JObj [(''idea'', JStr ''dog food'')])" "[]"]
    handler_sample_no_reply[OF parse_reply_samples(2), of 1000]
  by (simp add: sample_env_sel llm_reply_sample parse_reply_samples(2))

text \<open>
  Claim C6. In every returned score whose seven metrics are all present (finite numbers),
  composite_score is the mean of the seven, rounded to the nearest integer and clamped to
  0..100 (\<open>spec_composite\<close>).
\<close>

theorem composite_is_rounded_mean:
  assumes "response (handler rt ev req c) = Reply 200 (ScoreBody s)"
    and "ai_hype_beast s = Fin a" and "buzzword_density s = Fin b"
    and "cringe_founder_energy s = Fin k" and "market_viability s = Fin m"
    and "pivot_to_ai_probability s = Fin p" and "yc_bait_score s = Fin y"
    and "delusion_index s = Fin d"
  shows "composite_score s = Fin (real_of_int (spec_composite [a, b, k, m, p, y, d]))"
proof -
  from handler_score[OF assms(1)] obtain idea llm where
    s: "s = make_result (rnd ev) idea llm" by blast
  have "composite_score s = composite_of (ai_hype_beast s) (buzzword_density s)
      (cringe_founder_energy s) (market_viability s) (pivot_to_ai_probability s)
      (yc_bait_score s) (delusion_index s)"
    unfolding s by (rule make_result_composite)
  then show ?thesis using assms(2-8) by (simp only: composite_of_Fin)
qed

theorem composite_is_rounded_mean_witness:
  \<open>response (handler sample_runtime
     (sample_env 1000 ''{"yc_bait_score": 80, "delusion_index": 90, "founder_rank": "Chad", "goblin_verdict": "ok"}'')
     (post_from ''203.0.113.7'' (JObj [(''idea'', JStr ''dog food'')])) []) =
   Reply 200 (ScoreBody
      \<lparr>ai_hype_beast = Fin 53, buzzword_density = Fin 53, cringe_founder_energy = Fin 53,
       market_viability = Fin 42, pivot_to_ai_probability = Fin 82, yc_bait_score = Fin 80,
       delusion_index = Fin 90, founder_rank = JStr ''Chad'', goblin_verdict = JStr ''ok'',
       composite_score = Fin 65\<rparr>)
   \<and> spec_composite [53, 53, 53, 42, 82, 80, 90] = 65\<close>
proof -
  let ?ev = \<open>sample_env 1000 ''{"yc_bait_score": 80, "delusion_index": 90, "founder_rank": "Chad", "goblin_verdict": "ok"}''\<close>
  let ?req = "post_from ''203.0.113.7'' (JObj [(''idea'', JStr ''dog food'')])"
  let ?s = "\<lparr>ai_hype_beast = Fin 53, buzzword_density = Fin 53, cringe_founder_energy = Fin 53,
       market_viability = Fin 42, pivot_to_ai_probability = Fin 82, yc_bait_score = Fin 80,
       delusion_index = Fin 90, founder_rank = JStr ''Chad'', goblin_verdict = JStr ''ok'',
       composite_score = Fin 65\<rparr>"
  have r: "response (handler sample_runtime ?ev ?req []) = Reply 200 (ScoreBody ?s)"
    by (simp add: handler_sample_ok[OF parse_reply_samples(3) augment_samples(2)]
        make_result_dog_food composite_samples)
  have "composite_score ?s = Fin (real_of_int (spec_composite [53, 53, 53, 42, 82, 80, 90]))"
    by (rule composite_is_rounded_mean[OF r]) simp_all
  then have "spec_composite [53, 53, 53, 42, 82, 80, 90] = 65" by simp
  with r show ?thesis by simp
qed

text \<open>
  Claim C7 (on no match the keyword-driven metrics lie in a small band just above 0)
  against the code: for a text without any keyword and the lowest jitter the three metrics
  are 53, the least value the code can give; that is above the middle of the scale.
\<close>

theorem zero_hit_score_not_near_zero:
  "keyword_scores zero_draws ''dog food'' = (Fin 53, Fin 53, Fin 53)
   \<and> \<not> low_floor_band (fst (keyword_scores zero_draws ''dog food''))"
  by (simp add: keyword_scores_dog_food low_floor_band_def int_in_range_def)

text \<open>
  Claim C7, amended. For a text with no match in any of the three keyword lists, and
  random draws in [0, 1), each of ai_hype_beast, buzzword_density and cringe_founder_energy
  is an integer in 53..66 (60 plus a jitter of -7..6); in particular it is never 0.
\<close>

theorem zero_hits_floor_band:
  assumes "countMatches idea AI_KEYWORDS = 0" and "countMatches idea BUZZWORDS = 0"
    and "countMatches idea CRINGE_PHRASES = 0"
    and "0 \<le> r_ai rs \<and> r_ai rs < 1" and "0 \<le> r_buzz rs \<and> r_buzz rs < 1"
    and "0 \<le> r_cringe rs \<and> r_cringe rs < 1"
  shows "int_in_range 53 66 (fst (keyword_scores rs idea))
       \<and> int_in_range 53 66 (fst (snd (keyword_scores rs idea)))
       \<and> int_in_range 53 66 (snd (snd (keyword_scores rs idea)))"
proof -
  have a: "int_in_range 53 66 (scoreFromHits (r_ai rs) 0 (5 / 2))"
    using assms(4) by (intro zero_hits_band) simp_all
  have b: "int_in_range 53 66 (scoreFromHits (r_buzz rs) 0 2)"
    using assms(5) by (intro zero_hits_band) simp_all
  have c: "int_in_range 53 66 (scoreFromHits (r_cringe rs) 0 3)"
    using assms(6) by (intro zero_hits_band) simp_all
  from b obtain k where k: "scoreFromHits (r_buzz rs) 0 2 = Fin (real_of_int k)" "53 \<le> k" "k \<le> 66"
    by (rule int_in_range_FinE)
  have "int_in_range 0 100 (scoreFromHits (r_buzz rs) 0 2)"
    using k by (simp only: int_in_range_Fin) simp
  then have "clamp (scoreFromHits (r_buzz rs) 0 2) (Fin 0) (Fin 100) = scoreFromHits (r_buzz rs) 0 2"
    by (rule clamp_idem)
  then show ?thesis using a b c assms(1-3) by (simp add: keyword_scores_def Let_def)
qed

theorem zero_hits_floor_band_witness:
  "countMatches ''dog food'' AI_KEYWORDS = 0 \<and> countMatches ''dog food'' BUZZWORDS = 0
   \<and> countMatches ''dog food'' CRINGE_PHRASES = 0
   \<and> int_in_range 53 66 (fst (keyword_scores zero_draws ''dog food''))
   \<and> int_in_range 53 66 (fst (snd (keyword_scores zero_draws ''dog food'')))
   \<and> int_in_range 53 66 (snd (snd (keyword_scores zero_draws ''dog food'')))"
  using zero_hits_floor_band[of "''dog food''" zero_draws]
  by (simp add: kw_dog_food zero_draws_sel)

text \<open>
  Claim C10 (all requests without an address share one count, so that they get at most
  \<open>REQUESTS_PER_HOUR\<close> allowed requests per window) against the code: after five
  anonymous requests, the requests of \<open>max_entries\<close> other identities push the entry
  of \<open>unknown\<close> out of the cache, and a sixth anonymous request is allowed; all the
  requests fall within one window.
\<close>

theorem shared_count_evicted:
  "length (filter passed_limiter (outcomes_for ''unknown'' sample_runtime flood_requests [])) = 6
   \<and> list_all (\<lambda>(ev, req). 10 \<le> now ev \<and> now ev \<le> 10 + ttl) flood_requests"
proof -
  have "list_all (\<lambda>(ev, req). 10 \<le> now ev \<and> now ev \<le> 10 + ttl) flood_requests"
    by (simp add: flood_requests_def list_all_iff sample_env_sel ttl_def)
  then show ?thesis
    unfolding outcomes_results flood_calls flood_results by simp
qed

text \<open>
  Claim C10, amended. A request with neither an x-forwarded-for header nor a socket
  address has the identity \<open>unknown\<close>. Of the requests of that identity in any sequence
  of requests, served from any state of the cache, at most \<open>REQUESTS_PER_HOUR\<close> get past
  the rate limiter, provided they fall within one window (between \<open>lo\<close> and
  \<open>lo + ttl\<close>) and the other identities that make POST requests in the sequence are
  fewer than the capacity of the cache, however many requests each of them makes.
\<close>

theorem unknown_identity_shared:
  assumes "\<forall>(ev, req)\<in>set reqs. client_ip req = ''unknown'' \<longrightarrow> lo \<le> now ev \<and> now ev \<le> lo + ttl"
    and "card (set [client_ip req. (ev, req) \<leftarrow> reqs, http_method req = ''POST'',
                    client_ip req \<noteq> ''unknown'']) < max_entries"
  shows "(\<forall>req. x_forwarded_for req = None \<and> remoteAddress req = None
                \<longrightarrow> client_ip req = ''unknown'')
       \<and> length (filter passed_limiter (outcomes_for ''unknown'' rt reqs c)) \<le> REQUESTS_PER_HOUR"
proof -
  let ?calls = "map (\<lambda>(ev, req). (now ev, client_ip req))
            (filter (\<lambda>(ev, req). http_method req = ''POST'') reqs)"
  let ?S = "set [client_ip req. (ev, req) \<leftarrow> reqs, http_method req = ''POST'',
                    client_ip req \<noteq> ''unknown'']"
  have win: "\<forall>(t, ip)\<in>set ?calls. ip = ''unknown'' \<longrightarrow> lo \<le> t \<and> t \<le> lo + ttl"
    using assms(1) by auto
  have oth: "\<forall>(t, ip)\<in>set ?calls. ip \<noteq> ''unknown'' \<longrightarrow> ip \<in> ?S"
    by auto
  have "length (filter allowed (results_for ''unknown'' ?calls c)) \<le> 5"
    by (rule window_bound_identities[OF win oth finite_set assms(2)])
  then show ?thesis
    by (simp add: outcomes_results REQUESTS_PER_HOUR_def client_ip_def)
qed

theorem unknown_identity_shared_witness:
  "map passed_limiter (outcomes_for ''unknown'' sample_runtime
      [(sample_env 10 ''{}'', anonymous_post (JObj [])),
       (sample_env 20 ''{}'', anonymous_post (JObj [])),
       (sample_env 25 ''{}'', post_from ''203.0.113.7'' (JObj [])),
       (sample_env 30 ''{}'', anonymous_post (JObj [])),
       (sample_env 40 ''{}'', anonymous_post (JObj [])),
       (sample_env 50 ''{}'', anonymous_post (JObj [])),
       (sample_env 60 ''{}'', anonymous_post (JObj []))] [])
     = [True, True, True, True, True, False]
   \<and> length (filter passed_limiter (outcomes_for ''unknown'' sample_runtime
      [(sample_env 10 ''{}'', anonymous_post (JObj [])),
       (sample_env 20 ''{}'', anonymous_post (JObj [])),
       (sample_env 25 ''{}'', post_from ''203.0.113.7'' (JObj [])),
       (sample_env 30 ''{}'', anonymous_post (JObj [])),
       (sample_env 40 ''{}'', anonymous_post (JObj [])),
       (sample_env 50 ''{}'', anonymous_post (JObj [])),
       (sample_env 60 ''{}'', anonymous_post (JObj []))] [])) \<le> REQUESTS_PER_HOUR"
proof -
  let ?reqs = "[(sample_env 10 ''{}'', anonymous_post (JObj [])),
       (sample_env 20 ''{}'', anonymous_post (JObj [])),
       (sample_env 25 ''{}'', post_from ''203.0.113.7'' (JObj [])),
       (sample_env 30 ''{}'', anonymous_post (JObj [])),
       (sample_env 40 ''{}'', anonymous_post (JObj [])),
       (sample_env 50 ''{}'', anonymous_post (JObj [])),
       (sample_env 60 ''{}'', anonymous_post (JObj []))]"
  have w: "\<forall>(ev, req)\<in>set ?reqs. client_ip req = ''unknown'' \<longrightarrow> 10 \<le> now ev \<and> now ev \<le> 10 + ttl"
    by (simp add: sample_env_sel ttl_def)
  have o: "card (set [client_ip req. (ev, req) \<leftarrow> ?reqs, http_method req = ''POST'',
                    client_ip req \<noteq> ''unknown'']) < max_entries"
    by (simp add: anonymous_post_sel post_from_sel client_ip_sample max_entries_def)
  have m: "handler sample_runtime (sample_env t ''{}'') (anonymous_post (JObj [])) c =
     \<lparr>response =
        (if allowed (fst (getRateLimit t ''unknown'' c))
         then Reply 400 (ErrorBody ''Missing idea'')
         else Reply 429 (ErrorBody ''The Oracle needs rest. Try again later.'')),
      limiter = snd (getRateLimit t ''unknown'' c),
      llm_called = False, inserted = None\<rparr>" for t c
    using handler_missing[of "anonymous_post (JObj [])" Undefined sample_runtime
        "sample_env t ''{}''" c]
    by (simp add: anonymous_post_sel sample_env_sel)
  have p: "handler sample_runtime (sample_env t ''{}'') (post_from ''203.0.113.7'' (JObj [])) c =
     \<lparr>response =
        (if allowed (fst (getRateLimit t ''203.0.113.7'' c))
         then Reply 400 (ErrorBody ''Missing idea'')
         else Reply 429 (ErrorBody ''The Oracle needs rest. Try again later.'')),
      limiter = snd (getRateLimit t ''203.0.113.7'' c),
      llm_called = False, inserted = None\<rparr>" for t c
    using handler_missing[of "post_from ''203.0.113.7'' (JObj [])" Undefined sample_runtime
        "sample_env t ''{}''" c]
    by (simp add: post_from_sel client_ip_sample sample_env_sel)
  have e: "map passed_limiter (outcomes_for ''unknown'' sample_runtime ?reqs [])
      = [True, True, True, True, True, False]"
    by (simp add: outcomes_for_Cons outcomes_for_Nil m p anonymous_post_sel client_ip_sample
        getRateLimit_def lru_get_def lru_set_def remove_key_def ttl_def max_entries_def
        REQUESTS_PER_HOUR_def passed_limiter_def)
  show ?thesis
    using e unknown_identity_shared[OF w o, of sample_runtime "[]"] by simp
qed

end
